theory Spec2Isabelle
  imports Complex_Main
begin

section \<open>JavaScript numbers\<close>

text \<open>
  Every number of the component is an IEEE 754 binary64 value. A finite double is
  modelled by the real number it denotes, and every arithmetic operator rounds its exact
  result to the nearest double, ties to the even significand. Infinities, NaN and the
  sign of zero are outside the model: the exponent range is unbounded above, and
  gradual underflow below \<open>2 powi (- 1022)\<close> is kept.
\<close>

type_synonym number = real

text \<open>\<open>ilog2 n\<close> is the position of the leading bit of \<open>n\<close>.\<close>

fun ilog2 :: "nat \<Rightarrow> nat" where
  "ilog2 n = (if n < 2 then 0 else Suc (ilog2 (n div 2)))"

declare ilog2.simps [simp del]

text \<open>The binary exponent of a positive real: \<open>2 powi expo x \<le> x < 2 powi (expo x + 1)\<close>.\<close>

definition expo :: "real \<Rightarrow> int" where
  "expo x = (if 1 \<le> x then int (ilog2 (nat \<lfloor>x\<rfloor>))
             else - int (Suc (ilog2 (nat \<lceil>1 / x\<rceil> - 1))))"

text \<open>Round to the nearest integer, ties to even.\<close>

definition rne :: "real \<Rightarrow> int" where
  "rne x = (let f = \<lfloor>x\<rfloor>; d = x - of_int f in
             if d < 1 / 2 then f else if 1 / 2 < d then f + 1
             else if even f then f else f + 1)"

text \<open>The spacing of the doubles around \<open>x\<close>: 53 significant bits.\<close>

definition ulp :: "real \<Rightarrow> real" where
  "ulp x = 2 powi (max (expo \<bar>x\<bar>) (- 1022) - 52)"

text \<open>The exponent that fixes the spacing: subnormal numbers share the lowest one.\<close>

definition bexp :: "real \<Rightarrow> int" where
  "bexp x = max (expo \<bar>x\<bar>) (- 1022)"

text \<open>The double nearest to a real: what a numeric literal and every operator return.\<close>

definition double :: "real \<Rightarrow> number" where
  "double x = (if x = 0 then 0 else of_int (rne (x / ulp x)) * ulp x)"

definition add :: "number \<Rightarrow> number \<Rightarrow> number" where
  "add x y = double (x + y)"

definition sub :: "number \<Rightarrow> number \<Rightarrow> number" where
  "sub x y = double (x - y)"

definition mul :: "number \<Rightarrow> number \<Rightarrow> number" where
  "mul x y = double (x * y)"

text \<open>
  \<open>x.toFixed(d)\<close> returns a decimal numeral: the integer \<open>n\<close> for which \<open>n / 10 ^ d\<close> is
  closest to the magnitude of \<open>x\<close>, the larger one of two, with the sign of \<open>x\<close>; from
  \<open>10 ^ 21\<close> on it prints \<open>x\<close> itself. The string is modelled by the real it denotes.
\<close>

definition toFixed :: "number \<Rightarrow> nat \<Rightarrow> real" where
  "toFixed x d = (if 10 ^ 21 \<le> \<bar>x\<bar> then x
                  else sgn x * of_int \<lfloor>\<bar>x\<bar> * 10 ^ d + 1 / 2\<rfloor> / 10 ^ d)"

text \<open>\<open>+x.toFixed(d)\<close>: the unary plus reads the numeral back as the nearest double.\<close>

definition plus_toFixed :: "number \<Rightarrow> nat \<Rightarrow> number" where
  "plus_toFixed x d = double (toFixed x d)"

text \<open>\<open>Math.round\<close>: the nearest integer, ties upwards.\<close>

definition Math_round :: "number \<Rightarrow> number" where
  "Math_round x = of_int \<lfloor>x + 1 / 2\<rfloor>"

text \<open>
  A value is representable with \<open>d\<close> decimals when it is a double that printing with
  \<open>d\<close> decimals and reading back returns unchanged.
\<close>

definition representable :: "nat \<Rightarrow> number \<Rightarrow> bool" where
  "representable d x \<longleftrightarrow> double x = x \<and> plus_toFixed x d = x"

section \<open>Strings\<close>

text \<open>The decimal digits of \<open>Date.now()\<close> inside a template literal.\<close>

fun digits :: "nat \<Rightarrow> string" where
  "digits n = (if n < 10 then [char_of (48 + n)]
               else digits (n div 10) @ [char_of (48 + n mod 10)])"

declare digits.simps [simp del]

definition is_alnum :: "char \<Rightarrow> bool" where
  "is_alnum c = (let n = (of_char c :: nat) in
     (48 \<le> n \<and> n \<le> 57) \<or> (65 \<le> n \<and> n \<le> 90) \<or> (97 \<le> n \<and> n \<le> 122))"

definition toLowerCase :: "char \<Rightarrow> char" where
  "toLowerCase c = (let n = (of_char c :: nat) in
     if 65 \<le> n \<and> n \<le> 90 then char_of (n + 32) else c)"

text \<open>\<open>aadhaar ? `hash_${aadhaar.slice(-4)}` : null\<close>\<close>

definition aadhaarHash :: "string \<Rightarrow> string option" where
  "aadhaarHash aadhaar =
     (if aadhaar = [] then None
      else Some (''hash_'' @ drop (length aadhaar - 4) aadhaar))"

text \<open>\<open>`${name.replace(/[^a-z0-9]/gi, "").toLowerCase()}@greenpe`\<close>\<close>

definition createEnergyId :: "string \<Rightarrow> string" where
  "createEnergyId name = map toLowerCase (filter is_alnum name) @ ''@greenpe''"

section \<open>State of the component\<close>

text \<open>
  Field names carry a prefix where two objects of the source share a key. Timestamps
  (\<open>Date.now()\<close>, \<open>new Date().toISOString()\<close>) are the clock reading in milliseconds,
  an argument of the handler that takes it.
\<close>

record account =
  u_name :: string
  u_energyId :: string
  u_aadhaarHash :: "string option"
  u_gstin :: string

record order =
  o_id :: string
  o_seller :: string
  o_rec :: number
  o_pricePerREC :: number
  o_createdAt :: nat

record trade =
  t_id :: string
  t_orderId :: string
  t_buyer :: string
  t_seller :: string
  t_rec :: number
  t_pricePerREC :: number
  t_total :: number
  t_paymentId :: string
  t_timestamp :: nat

record gic_generator =
  g_energyId :: string
  g_aadhaar_hash :: "string option"
  g_gstin :: string

record gic_compliance =
  eu_cbam :: bool
  generatedAt :: nat

record gic =
  gicId :: string
  issuer :: string
  tokens :: "string list"
  totalRec :: number
  totalCarbonKg :: number
  generator :: gic_generator
  compliance :: gic_compliance

text \<open>
  What the callback handed to \<open>setTimeout\<close> in \<open>buyOrder\<close> closes over: the order, the
  buyer, the total, the payment id, and \<open>user\<close> as it was when the handler ran.
\<close>

record closure =
  c_order :: order
  c_buyer :: string
  c_user :: "account option"
  c_total :: number
  c_paymentId :: string

text \<open>
  The \<open>useState\<close> cells, and the queue of pending settlement callbacks. \<open>greenScore\<close>
  is recomputed by an effect after every change of \<open>kwhTotal\<close> or \<open>recBalance\<close>, so it
  is the function \<open>greenScore\<close> of the state below.
\<close>

record state =
  user :: "account option"
  showOnboard :: bool
  kwhTotal :: number
  lastReading :: number
  isMeterRunning :: bool
  recBalance :: number
  carbonKg :: number
  inrBalance :: number
  orders :: "order list"
  tradeHistory :: "trade list"
  placePrice :: number
  placeRECs :: number
  gics :: "gic list"
  timeouts :: "closure list"

section \<open>Tokenization\<close>

text \<open>The two local constants of \<open>mintTokensForKwh\<close>.\<close>

definition mint_rec :: "number \<Rightarrow> number" where
  "mint_rec kwh = plus_toFixed (mul kwh (double (1 / 1000))) 6"

definition mint_carbon :: "number \<Rightarrow> number" where
  "mint_carbon kwh = plus_toFixed (mul kwh (double (8 / 10))) 3"

definition mintTokensForKwh :: "number \<Rightarrow> state \<Rightarrow> state" where
  "mintTokensForKwh kwh s =
     (let rec = mint_rec kwh; carbon = mint_carbon kwh in
      s\<lparr>recBalance := plus_toFixed (add (recBalance s) rec) 6,
        carbonKg := plus_toFixed (add (carbonKg s) carbon) 3\<rparr>)"

text \<open>The interval callback; \<open>rnd\<close> is the value of \<open>Math.random()\<close>.\<close>

definition meterTick :: "number \<Rightarrow> state \<Rightarrow> state" where
  "meterTick rnd s =
     (let tick = plus_toFixed (add (mul rnd (double (11 / 10))) (double (1 / 10))) 3 in
      mintTokensForKwh tick
        (s\<lparr>lastReading := tick, kwhTotal := plus_toFixed (add (kwhTotal s) tick) 3\<rparr>))"

section \<open>GreenScore\<close>

text \<open>
  \<open>Math.min(1000, Math.round(Math.log(1 + kwhTotal) * 200 + recBalance * 50))\<close>.
  \<open>Math.log\<close> is an approximation chosen by the engine, so it is the argument \<open>mlog\<close>.
\<close>

definition score :: "(number \<Rightarrow> number) \<Rightarrow> number \<Rightarrow> number \<Rightarrow> number" where
  "score mlog kwh rec =
     min 1000 (Math_round (add (mul (mlog (add 1 kwh)) 200) (mul rec 50)))"

definition greenScore :: "(number \<Rightarrow> number) \<Rightarrow> state \<Rightarrow> number" where
  "greenScore mlog s = score mlog (kwhTotal s) (recBalance s)"

section \<open>Marketplace\<close>

text \<open>An \<open>alert\<close> followed by \<open>return\<close> is the left summand, with the message.\<close>

definition placeSellOrder :: "nat \<Rightarrow> state \<Rightarrow> string + state" where
  "placeSellOrder now s =
     (case user s of
        None \<Rightarrow> Inl ''Please onboard first''
      | Some u \<Rightarrow>
          if placeRECs s \<le> 0 \<or> placeRECs s > recBalance s then Inl ''Invalid REC amount''
          else
            let order = \<lparr>o_id = ''ORD-'' @ digits now,
                         o_seller = u_energyId u,
                         o_rec = plus_toFixed (placeRECs s) 6,
                         o_pricePerREC = placePrice s,
                         o_createdAt = now\<rparr>
            in Inr (s\<lparr>orders := order # orders s,
                      recBalance := plus_toFixed (sub (recBalance s) (o_rec order)) 6\<rparr>))"

text \<open>
  The local constants \<open>total\<close>, \<open>buyer\<close> and \<open>trade\<close> of \<open>buyOrder\<close>, and what its
  callback captures. One clock reading stands for the calls of \<open>Date.now()\<close> and
  \<open>new Date()\<close> within one handler.
\<close>

definition order_total :: "order \<Rightarrow> number" where
  "order_total order = plus_toFixed (mul (o_rec order) (o_pricePerREC order)) 2"

definition order_buyer :: "state \<Rightarrow> string" where
  "order_buyer s = (case user s of Some u \<Rightarrow> u_energyId u | None \<Rightarrow> ''anonymous@greenpe'')"

definition new_trade :: "order \<Rightarrow> nat \<Rightarrow> state \<Rightarrow> trade" where
  "new_trade order now s =
     \<lparr>t_id = ''TRADE-'' @ digits now,
      t_orderId = o_id order,
      t_buyer = order_buyer s,
      t_seller = o_seller order,
      t_rec = o_rec order,
      t_pricePerREC = o_pricePerREC order,
      t_total = order_total order,
      t_paymentId = ''UPI-'' @ digits now,
      t_timestamp = now\<rparr>"

definition new_closure :: "order \<Rightarrow> nat \<Rightarrow> state \<Rightarrow> closure" where
  "new_closure order now s =
     \<lparr>c_order = order,
      c_buyer = order_buyer s,
      c_user = user s,
      c_total = order_total order,
      c_paymentId = ''UPI-'' @ digits now\<rparr>"

text \<open>The synchronous part of \<open>buyOrder\<close>: the settlement callback is queued, not run.\<close>

definition buyOrder :: "order \<Rightarrow> nat \<Rightarrow> state \<Rightarrow> state" where
  "buyOrder order now s =
     s\<lparr>tradeHistory := new_trade order now s # tradeHistory s,
       orders := filter (\<lambda>x. o_id x \<noteq> o_id order) (orders s),
       timeouts := timeouts s @ [new_closure order now s]\<rparr>"

text \<open>
  The callback of \<open>setTimeout\<close>. \<open>user && user.energyId\<close> is \<open>null\<close> without a user,
  which no string equals. The alert that ends it shows the payment id and the total and
  changes no state.
\<close>

definition settle :: "closure \<Rightarrow> state \<Rightarrow> state" where
  "settle c s =
     (let s1 = (if Some (o_seller (c_order c)) = map_option u_energyId (c_user c)
                then s\<lparr>inrBalance :=
                         plus_toFixed (add (inrBalance s) (mul (c_total c) (double (99 / 100)))) 2\<rparr>
                else s)
      in if Some (c_buyer c) = map_option u_energyId (c_user c)
         then s1\<lparr>recBalance := plus_toFixed (add (recBalance s1) (o_rec (c_order c))) 6\<rparr>
         else s1)"

section \<open>Certificates\<close>

text \<open>
  The object \<open>gic\<close> of \<open>generateGIC\<close>. The download of the JSON file that follows the
  update of the history changes no state and is left out.
\<close>

definition new_gic :: "account \<Rightarrow> nat \<Rightarrow> state \<Rightarrow> gic" where
  "new_gic u now s =
     \<lparr>gicId = ''GIC-'' @ digits now,
      issuer = ''GreenPe:CERTv1'',
      tokens = [],
      totalRec = plus_toFixed (recBalance s) 6,
      totalCarbonKg = plus_toFixed (carbonKg s) 3,
      generator = \<lparr>g_energyId = u_energyId u,
                   g_aadhaar_hash = u_aadhaarHash u,
                   g_gstin = (if u_gstin u = [] then ''NA'' else u_gstin u)\<rparr>,
      compliance = \<lparr>eu_cbam = True, generatedAt = now\<rparr>\<rparr>"

definition generateGIC :: "nat \<Rightarrow> state \<Rightarrow> string + state" where
  "generateGIC now s =
     (case user s of
        None \<Rightarrow> Inl ''Onboard to generate GIC''
      | Some u \<Rightarrow> Inr (s\<lparr>gics := new_gic u now s # gics s\<rparr>))"

section \<open>Onboarding\<close>

text \<open>The submit handler of the form, with the values of its three fields.\<close>

definition handleOnboard :: "string \<Rightarrow> string \<Rightarrow> string \<Rightarrow> state \<Rightarrow> state" where
  "handleOnboard form_name form_aadhaar form_gstin s =
     (let name = (if form_name = [] then ''user'' else form_name);
          aadhaar = (if form_aadhaar = [] then ''0000'' else form_aadhaar);
          newUser = \<lparr>u_name = name,
                     u_energyId = createEnergyId name,
                     u_aadhaarHash = aadhaarHash aadhaar,
                     u_gstin = form_gstin\<rparr>
      in s\<lparr>user := Some newUser, showOnboard := False\<rparr>)"

section \<open>The component as a transition system\<close>

text \<open>
  One event per handler of the page, run to completion on the current state. A tick
  exists only while the meter runs, a Buy button only for a listed order, a settlement
  only while a callback is queued; callbacks have the same delay and fire in order.
\<close>

datatype event =
    Onboard string string string
  | OpenOnboard
  | CancelOnboard
  | Start
  | Stop
  | ToggleMeter
  | Reset
  | Tick number
  | ChangePlaceRECs number
  | ChangePlacePrice number
  | Place nat
  | Buy order nat
  | Settlement
  | Generate nat
  | ClearGics
  | Subsidy

fun enabled :: "state \<Rightarrow> event \<Rightarrow> bool" where
  "enabled s (Onboard n a g) = showOnboard s"
| "enabled s CancelOnboard = showOnboard s"
| "enabled s (Tick rnd) = (isMeterRunning s \<and> 0 \<le> rnd \<and> rnd < 1)"
| "enabled s (Buy order now) = (order \<in> set (orders s))"
| "enabled s Settlement = (timeouts s \<noteq> [])"
| "enabled s e = True"

fun step :: "state \<Rightarrow> event \<Rightarrow> state" where
  "step s (Onboard n a g) = handleOnboard n a g s"
| "step s OpenOnboard = s\<lparr>showOnboard := True\<rparr>"
| "step s CancelOnboard = s\<lparr>showOnboard := False\<rparr>"
| "step s Start = s\<lparr>isMeterRunning := True\<rparr>"
| "step s Stop = s\<lparr>isMeterRunning := False\<rparr>"
| "step s ToggleMeter = s\<lparr>isMeterRunning := \<not> isMeterRunning s\<rparr>"
| "step s Reset = s\<lparr>kwhTotal := 0, recBalance := 0, carbonKg := 0\<rparr>"
| "step s (Tick rnd) = meterTick rnd s"
| "step s (ChangePlaceRECs v) = s\<lparr>placeRECs := v\<rparr>"
| "step s (ChangePlacePrice v) = s\<lparr>placePrice := v\<rparr>"
| "step s (Place now) = (case placeSellOrder now s of Inl msg \<Rightarrow> s | Inr s' \<Rightarrow> s')"
| "step s (Buy order now) = buyOrder order now s"
| "step s Settlement =
     (case timeouts s of [] \<Rightarrow> s | c # cs \<Rightarrow> settle c (s\<lparr>timeouts := cs\<rparr>))"
| "step s (Generate now) = (case generateGIC now s of Inl msg \<Rightarrow> s | Inr s' \<Rightarrow> s')"
| "step s ClearGics = s\<lparr>gics := []\<rparr>"
| "step s Subsidy = s\<lparr>inrBalance := add (inrBalance s) 500\<rparr>"

text \<open>The state after mounting at time \<open>now\<close>: the defaults and the two seeded orders.\<close>

definition init :: "nat \<Rightarrow> state" where
  "init now =
     \<lparr>user = None, showOnboard = True, kwhTotal = 0, lastReading = 0,
      isMeterRunning = False, recBalance = 0, carbonKg = 0, inrBalance = 0,
      orders =
        [\<lparr>o_id = ''ORD-1'', o_seller = ''weaver_tirupur@greenpe'', o_rec = double (5 / 10),
          o_pricePerREC = 5200, o_createdAt = now\<rparr>,
         \<lparr>o_id = ''ORD-2'', o_seller = ''farmer_nashik@greenpe'', o_rec = double (2 / 10),
          o_pricePerREC = 4800, o_createdAt = now\<rparr>],
      tradeHistory = [], placePrice = 5000, placeRECs = double (5 / 100),
      gics = [], timeouts = []\<rparr>"

section \<open>Runs and example data\<close>

text \<open>
  A run applies events to the state mounted at time 0; it is feasible when the page
  offers every event in the state where it is applied.
\<close>

definition run :: "event list \<Rightarrow> state" where
  "run es = foldl step (init 0) es"

fun feasible :: "state \<Rightarrow> event list \<Rightarrow> bool" where
  "feasible s [] = True"
| "feasible s (e # es) = (enabled s e \<and> feasible (step s e) es)"

text \<open>Every listed order and every queued settlement carries a non-negative amount.\<close>

definition amounts_ok :: "state \<Rightarrow> bool" where
  "amounts_ok s \<longleftrightarrow> (\<forall>order \<in> set (orders s). 0 \<le> o_rec order)
     \<and> (\<forall>c \<in> set (timeouts s). 0 \<le> o_rec (c_order c))"

text \<open>
  The ledger is in order: the meter totals and the credit balance are representable at
  their precision, the credit balance is non-negative, and so are the amounts.
\<close>

definition ledger_ok :: "state \<Rightarrow> bool" where
  "ledger_ok s \<longleftrightarrow> representable 3 (kwhTotal s) \<and> representable 3 (carbonKg s)
     \<and> representable 6 (recBalance s) \<and> 0 \<le> recBalance s \<and> amounts_ok s"

text \<open>The first seeded order, as \<open>init 0\<close> lists it.\<close>

definition seed1 :: order where
  "seed1 = \<lparr>o_id = ''ORD-1'', o_seller = ''weaver_tirupur@greenpe'', o_rec = double (5 / 10),
     o_pricePerREC = 5200, o_createdAt = 0\<rparr>"

text \<open>The account that the onboarding form creates for Alice.\<close>

definition alice :: account where
  "alice = \<lparr>u_name = ''Alice'', u_energyId = ''alice@greenpe'',
     u_aadhaarHash = Some ''hash_1234'', u_gstin = ''''\<rparr>"

text \<open>Alice onboards, starts the meter, and one tick with \<open>Math.random() = 0\<close> mints.\<close>

definition minted :: "event list" where
  "minted = [Onboard ''Alice'' ''123456781234'' '''', Start, Tick 0]"

text \<open>She types 0.0001 into the amount field and places the order at the default price.\<close>

definition typed :: "event list" where
  "typed = minted @ [ChangePlaceRECs (double (1 / 10000))]"

definition listing :: "event list" where
  "listing = typed @ [Place 5]"

definition own_order :: order where
  "own_order = \<lparr>o_id = ''ORD-'' @ digits 5, o_seller = ''alice@greenpe'',
     o_rec = double (1 / 10000), o_pricePerREC = 5000, o_createdAt = 5\<rparr>"

text \<open>She buys her own order, with an empty wallet and after the subsidy of 500.\<close>

definition sold_0 :: "event list" where
  "sold_0 = listing @ [Buy own_order 9, Settlement]"

definition funded :: "event list" where
  "funded = listing @ [Subsidy]"

definition sold_500 :: "event list" where
  "sold_500 = funded @ [Buy own_order 9, Settlement]"

text \<open>She types 0.0000014 instead.\<close>

definition typed_fine :: "event list" where
  "typed_fine = minted @ [ChangePlaceRECs (double (14 / 10000000))]"

definition placed_fine :: "event list" where
  "placed_fine = typed_fine @ [Place 5]"

text \<open>A seeded order is bought before anyone onboards; Alice onboards before it settles.\<close>

definition anonymous_buy :: "event list" where
  "anonymous_buy = [Buy seed1 7, Onboard ''Alice'' ''123456781234'' '''', Settlement]"

section \<open>Rounding to a double is monotone\<close>

lemma ilog2_bounds: "0 < n \<Longrightarrow> 2 ^ ilog2 n \<le> n \<and> n < 2 ^ Suc (ilog2 n)"
proof (induction n rule: ilog2.induct)
  case (1 n)
  show ?case
  proof (cases "n < 2")
    case True
    with "1.prems" show ?thesis by (simp add: ilog2.simps [of n])
  next
    case False
    then have pos: "0 < n div 2" by simp
    from "1.IH" [OF False pos]
    have lo: "2 ^ ilog2 (n div 2) \<le> n div 2" and hi: "n div 2 < 2 ^ Suc (ilog2 (n div 2))"
      by simp_all
    have eq: "ilog2 n = Suc (ilog2 (n div 2))"
      using False by (simp add: ilog2.simps [of n])
    from lo have "2 * 2 ^ ilog2 (n div 2) \<le> n" by linarith
    moreover from hi have "n < 2 * 2 ^ Suc (ilog2 (n div 2))" by linarith
    ultimately show ?thesis by (simp add: eq)
  qed
qed

lemma real_pow2_le: "(2::nat) ^ k \<le> n \<Longrightarrow> (2::real) ^ k \<le> real n"
proof -
  assume "(2::nat) ^ k \<le> n"
  then have "real (2 ^ k) \<le> real n" by (simp only: of_nat_le_iff)
  then show ?thesis by (simp only: of_nat_power of_nat_numeral)
qed

lemma real_le_pow2: "n \<le> (2::nat) ^ k \<Longrightarrow> real n \<le> (2::real) ^ k"
proof -
  assume "n \<le> (2::nat) ^ k"
  then have "real n \<le> real (2 ^ k)" by (simp only: of_nat_le_iff)
  then show ?thesis by (simp only: of_nat_power of_nat_numeral)
qed

lemma real_less_pow2: "n < (2::nat) ^ k \<Longrightarrow> real n < (2::real) ^ k"
proof -
  assume "n < (2::nat) ^ k"
  then have "real n < real (2 ^ k)" by (simp only: of_nat_less_iff)
  then show ?thesis by (simp only: of_nat_power of_nat_numeral)
qed

lemma expo_ge1:
  assumes "1 \<le> x"
  shows "2 powi expo x \<le> x" and "x < 2 powi (expo x + 1)"
proof -
  let ?n = "nat \<lfloor>x\<rfloor>"
  have n: "0 < ?n" using assms by simp
  have e: "expo x = int (ilog2 ?n)" using assms by (simp add: expo_def)
  from ilog2_bounds [OF n]
  have lo: "2 ^ ilog2 ?n \<le> ?n" and hi: "?n < 2 ^ Suc (ilog2 ?n)" by simp_all
  have "(2::real) ^ ilog2 ?n \<le> real ?n" using lo by (rule real_pow2_le)
  moreover have "real ?n \<le> x" using assms by simp
  ultimately have "(2::real) ^ ilog2 ?n \<le> x" by linarith
  then show "2 powi expo x \<le> x" by (simp only: e power_int_of_nat)
  have "Suc ?n \<le> 2 ^ Suc (ilog2 ?n)" using hi by (rule Suc_leI)
  then have "real (Suc ?n) \<le> (2::real) ^ Suc (ilog2 ?n)" by (rule real_le_pow2)
  then have "real ?n + 1 \<le> (2::real) ^ Suc (ilog2 ?n)" by (simp only: of_nat_Suc)
  moreover have "x < real ?n + 1" using assms by simp
  ultimately have "x < 2 ^ Suc (ilog2 ?n)" by linarith
  moreover have "expo x + 1 = int (Suc (ilog2 ?n))" by (simp add: e)
  ultimately show "x < 2 powi (expo x + 1)" by (simp only: power_int_of_nat)
qed

lemma expo_lt1:
  assumes "0 < x" "x < 1"
  shows "2 powi expo x \<le> x" and "x < 2 powi (expo x + 1)"
proof -
  let ?y = "1 / x"
  let ?m = "nat \<lceil>?y\<rceil>"
  let ?k = "ilog2 (?m - 1)"
  have y: "1 < ?y" using assms by simp
  then have "2 \<le> \<lceil>?y\<rceil>" by linarith
  then have m: "0 < ?m - 1" by simp
  have e: "expo x = - int (Suc ?k)" using assms by (simp add: expo_def)
  from ilog2_bounds [OF m]
  have lo: "2 ^ ?k \<le> ?m - 1" and hi: "?m - 1 < 2 ^ Suc ?k" by simp_all
  have "?m \<le> 2 ^ Suc ?k" using hi m by linarith
  then have "real ?m \<le> (2::real) ^ Suc ?k" by (rule real_le_pow2)
  moreover have "?y \<le> real ?m" using y by (simp add: of_nat_nat) 
  ultimately have "?y \<le> 2 ^ Suc ?k" by linarith
  then have "1 \<le> x * 2 ^ Suc ?k" using assms by (simp add: field_simps)
  then have "1 / 2 ^ Suc ?k \<le> x" by (simp add: field_simps)
  then show "2 powi expo x \<le> x"
    by (simp only: e power_int_minus power_int_of_nat inverse_eq_divide)
  have "(2::real) ^ ?k \<le> real (?m - 1)" using lo by (rule real_pow2_le)
  moreover have "real (?m - 1) < ?y" using y m by (simp add: of_nat_diff) linarith
  ultimately have "2 ^ ?k < ?y" by linarith
  then have "x * 2 ^ ?k < 1" using assms by (simp add: field_simps)
  then have "x < 1 / 2 ^ ?k" by (simp add: field_simps)
  moreover have "expo x + 1 = - int ?k" by (simp add: e)
  ultimately show "x < 2 powi (expo x + 1)"
    by (simp only: power_int_minus power_int_of_nat inverse_eq_divide)
qed

lemma expo_bounds:
  assumes "0 < x"
  shows "2 powi expo x \<le> x" and "x < 2 powi (expo x + 1)"
  using assms expo_ge1 [of x] expo_lt1 [of x] by (cases "1 \<le> x"; simp)+

lemma expo_mono:
  assumes "0 < x" "x \<le> y"
  shows "expo x \<le> expo y"
proof (rule ccontr)
  assume "\<not> expo x \<le> expo y"
  then have "expo y + 1 \<le> expo x" by simp
  then have "(2::real) powi (expo y + 1) \<le> 2 powi expo x"
    by (intro power_int_increasing) simp_all
  moreover have "y < 2 powi (expo y + 1)" using assms by (intro expo_bounds) simp
  moreover have "2 powi expo x \<le> x" using assms by (intro expo_bounds)
  ultimately show False using assms by linarith
qed

lemma rne_bounds: "real_of_int (rne x) \<le> x + 1 / 2" "x - 1 / 2 \<le> real_of_int (rne x)"
  unfolding rne_def Let_def by (auto; linarith)+

lemma rne_of_int [simp]: "rne (of_int n) = n"
  by (simp add: rne_def)

lemma rne_mono:
  assumes "x \<le> y"
  shows "rne x \<le> rne y"
proof (rule ccontr)
  assume "\<not> rne x \<le> rne y"
  then have "rne y + 1 \<le> rne x" by simp
  then have gt: "real_of_int (rne y) + 1 \<le> real_of_int (rne x)" by linarith
  with rne_bounds(1) [of x] rne_bounds(2) [of y] assms have "x = y" by linarith
  with \<open>\<not> rne x \<le> rne y\<close> show False by simp
qed

lemma ulp_pos: "0 < ulp x"
  by (simp add: ulp_def)

lemma rne_zero [simp]: "rne 0 = 0"
  using rne_of_int [of 0] by simp

lemma double_zero [simp]: "double 0 = 0"
  by (simp add: double_def)

lemma double_nonneg: "0 \<le> x \<Longrightarrow> 0 \<le> double x"
proof -
  assume "0 \<le> x"
  then have "0 \<le> x / ulp x" using ulp_pos [of x] by simp
  then have "rne 0 \<le> rne (x / ulp x)" by (rule rne_mono)
  then show ?thesis using ulp_pos [of x] by (simp add: double_def)
qed

lemma double_nonpos: "x \<le> 0 \<Longrightarrow> double x \<le> 0"
proof -
  assume "x \<le> 0"
  then have "x / ulp x \<le> 0" using ulp_pos [of x] by (simp add: divide_le_0_iff)
  then have "rne (x / ulp x) \<le> rne 0" by (rule rne_mono)
  then show ?thesis using ulp_pos [of x] by (simp add: double_def mult_le_0_iff)
qed

lemma ulp_bexp: "ulp x = 2 powi (bexp x - 52)"
  by (simp add: ulp_def bexp_def)

lemma powi_shift: "(2::real) powi (b + int k) = 2 ^ k * 2 powi b"
  by (simp add: power_int_add mult.commute)

text \<open>Upper bound: a positive number rounds to at most the next power of two.\<close>

lemma double_upper:
  assumes "0 < x"
  shows "double x \<le> 2 powi (bexp x + 1)"
proof -
  have "x < 2 powi (expo x + 1)" using assms by (rule expo_bounds)
  moreover have "(2::real) powi (expo x + 1) \<le> 2 powi (bexp x + 1)"
    using assms by (intro power_int_increasing) (simp_all add: bexp_def)
  ultimately have "x \<le> 2 powi (bexp x + 1)" by linarith
  moreover have sh: "(2::real) powi (bexp x + 1) = 2 ^ 53 * ulp x"
    using powi_shift [of "bexp x - 52" 53] by (simp add: ulp_bexp add.commute)
  ultimately have "x / ulp x \<le> 2 ^ 53" using ulp_pos [of x] by (simp add: field_simps)
  then have "rne (x / ulp x) \<le> rne (of_int (2 ^ 53))" by (intro rne_mono) simp
  then have "rne (x / ulp x) \<le> 2 ^ 53" by (simp only: rne_of_int)
  then have "real_of_int (rne (x / ulp x)) \<le> 2 ^ 53"
    using of_int_le_iff [of "rne (x / ulp x)" "2 ^ 53", where ?'a = real] by simp
  then have "real_of_int (rne (x / ulp x)) * ulp x \<le> 2 ^ 53 * ulp x"
    using ulp_pos [of x] by (intro mult_right_mono) simp_all
  then show ?thesis
    using assms sh by (simp add: double_def)
qed

lemma double_lower:
  assumes "0 < x" "- 1022 \<le> expo x"
  shows "2 powi bexp x \<le> double x"
proof -
  have b: "bexp x = expo x" using assms by (simp add: bexp_def)
  have "2 powi expo x \<le> x" using assms(1) by (rule expo_bounds)
  moreover have sh: "(2::real) powi bexp x = 2 ^ 52 * ulp x"
    using powi_shift [of "bexp x - 52" 52] by (simp add: ulp_bexp)
  ultimately have "2 ^ 52 \<le> x / ulp x" using ulp_pos [of x] b by (simp add: field_simps)
  then have "rne (of_int (2 ^ 52)) \<le> rne (x / ulp x)" by (intro rne_mono) simp
  then have "2 ^ 52 \<le> rne (x / ulp x)" by (simp only: rne_of_int)
  then have "2 ^ 52 \<le> real_of_int (rne (x / ulp x))"
    using of_int_le_iff [of "2 ^ 52" "rne (x / ulp x)", where ?'a = real] by simp
  then have "2 ^ 52 * ulp x \<le> real_of_int (rne (x / ulp x)) * ulp x"
    using ulp_pos [of x] by (intro mult_right_mono) simp_all
  then show ?thesis
    using assms sh by (simp add: double_def)
qed

lemma double_mono_pos:
  assumes "0 < x" "x \<le> y"
  shows "double x \<le> double y"
proof -
  have y: "0 < y" using assms by simp
  have le: "bexp x \<le> bexp y"
    using expo_mono [of x y] assms by (simp add: bexp_def)
  show ?thesis
  proof (cases "bexp x = bexp y")
    case True
    then have u: "ulp x = ulp y" by (simp add: ulp_bexp)
    have "x / ulp y \<le> y / ulp y" using assms ulp_pos [of y] by (simp add: divide_right_mono)
    then have "rne (x / ulp y) \<le> rne (y / ulp y)" by (rule rne_mono)
    then have "real_of_int (rne (x / ulp y)) * ulp y \<le> real_of_int (rne (y / ulp y)) * ulp y"
      using ulp_pos [of y] by (intro mult_right_mono) simp_all
    then show ?thesis using assms y u by (simp add: double_def)
  next
    case False
    with le have lt: "bexp x + 1 \<le> bexp y" by simp
    then have ey: "- 1022 \<le> expo y" using y by (simp add: bexp_def max_def split: if_splits)
    have "double x \<le> 2 powi (bexp x + 1)" using assms(1) by (rule double_upper)
    also have "\<dots> \<le> 2 powi bexp y" using lt by (intro power_int_increasing) simp_all
    also have "\<dots> \<le> double y" using y ey by (rule double_lower)
    finally show ?thesis .
  qed
qed

text \<open>Rounding is odd, since ties go to the even neighbour on both sides.\<close>

lemma rne_minus: "rne (- x) = - rne x"
proof (cases "x \<in> \<int>")
  case True
  then obtain n where "x = of_int n" by (auto elim: Ints_cases)
  then have "- x = of_int (- n)" by simp
  then show ?thesis using \<open>x = of_int n\<close> by (simp only: rne_of_int)
next
  case False
  then have ne: "x \<noteq> of_int \<lfloor>x\<rfloor>" by (auto simp: Ints_def)
  then have f: "\<lfloor>- x\<rfloor> = - \<lfloor>x\<rfloor> - 1" by (simp add: floor_minus ceiling_altdef)
  from ne have lt: "of_int \<lfloor>x\<rfloor> < x" using of_int_floor_le [of x] by linarith
  show ?thesis
    unfolding rne_def Let_def f using lt by (auto; linarith?)
qed

lemma ulp_minus [simp]: "ulp (- x) = ulp x"
  by (simp add: ulp_def)

lemma double_minus: "double (- x) = - double x"
  by (simp add: double_def rne_minus)

lemma double_mono:
  assumes "x \<le> y"
  shows "double x \<le> double y"
proof -
  consider "0 < x" | "x \<le> 0" "0 \<le> y" | "y < 0" by linarith
  then show ?thesis
  proof cases
    case 1
    then show ?thesis using assms by (rule double_mono_pos)
  next
    case 2
    then show ?thesis using double_nonpos [of x] double_nonneg [of y] by linarith
  next
    case 3
    then have "double (- y) \<le> double (- x)" using assms by (intro double_mono_pos) simp_all
    then show ?thesis by (simp add: double_minus)
  qed
qed

lemma toFixed_nonneg_eq:
  "0 \<le> x \<Longrightarrow> toFixed x d =
     (if 10 ^ 21 \<le> x then x else of_int \<lfloor>x * 10 ^ d + 1 / 2\<rfloor> / 10 ^ d)"
  by (cases "x = 0") (simp_all add: toFixed_def)

lemma toFixed_minus: "toFixed (- x) d = - toFixed x d"
  by (simp add: toFixed_def)

lemma toFixed_nonneg: "0 \<le> x \<Longrightarrow> 0 \<le> toFixed x d"
  by (simp add: toFixed_nonneg_eq)

lemma toFixed_small_le:
  assumes "0 \<le> x" "x < 10 ^ 21"
  shows "toFixed x d \<le> 10 ^ 21"
proof -
  have a: "x * 10 ^ d \<le> 10 ^ 21 * 10 ^ d" using assms by (intro mult_right_mono) simp_all
  have b: "real_of_int (10 ^ 21 * 10 ^ d) = 10 ^ 21 * 10 ^ d" by simp
  from a b have "x * 10 ^ d + 1 / 2 < of_int (10 ^ 21 * 10 ^ d) + 1" by linarith
  then have "\<lfloor>x * 10 ^ d + 1 / 2\<rfloor> \<le> 10 ^ 21 * 10 ^ d" by (simp only: floor_le_iff)
  then have "real_of_int \<lfloor>x * 10 ^ d + 1 / 2\<rfloor> \<le> real_of_int (10 ^ 21 * 10 ^ d)"
    by (simp only: of_int_le_iff)
  then have "real_of_int \<lfloor>x * 10 ^ d + 1 / 2\<rfloor> / 10 ^ d \<le> 10 ^ 21"
    by (simp add: field_simps)
  then show ?thesis using assms by (simp add: toFixed_nonneg_eq)
qed

lemma toFixed_mono_nonneg:
  assumes "0 \<le> x" "x \<le> y"
  shows "toFixed x d \<le> toFixed y d"
proof (cases "10 ^ 21 \<le> y")
  case True
  then have ty: "toFixed y d = y" by (simp add: toFixed_def)
  show ?thesis
  proof (cases "10 ^ 21 \<le> x")
    case True
    then show ?thesis using assms ty by (simp add: toFixed_def)
  next
    case False
    then have "toFixed x d \<le> 10 ^ 21" using assms by (intro toFixed_small_le) simp_all
    then show ?thesis using True ty by linarith
  qed
next
  case False
  have "x * 10 ^ d + 1 / 2 \<le> y * 10 ^ d + 1 / 2" using assms by (simp add: mult_right_mono)
  then have "\<lfloor>x * 10 ^ d + 1 / 2\<rfloor> \<le> \<lfloor>y * 10 ^ d + 1 / 2\<rfloor>" by (rule floor_mono)
  then have "real_of_int \<lfloor>x * 10 ^ d + 1 / 2\<rfloor> / 10 ^ d
      \<le> real_of_int \<lfloor>y * 10 ^ d + 1 / 2\<rfloor> / 10 ^ d"
    by (intro divide_right_mono) simp_all
  then show ?thesis using assms False by (simp add: toFixed_nonneg_eq)
qed

lemma toFixed_mono:
  assumes "x \<le> y"
  shows "toFixed x d \<le> toFixed y d"
proof -
  consider "0 \<le> x" | "x < 0" "0 \<le> y" | "y < 0" by linarith
  then show ?thesis
  proof cases
    case 1
    then show ?thesis using assms by (rule toFixed_mono_nonneg)
  next
    case 2
    then have "0 \<le> toFixed (- x) d" by (intro toFixed_nonneg) simp
    moreover have "0 \<le> toFixed y d" using 2 by (intro toFixed_nonneg)
    ultimately show ?thesis by (simp add: toFixed_minus)
  next
    case 3
    then have "toFixed (- y) d \<le> toFixed (- x) d" using assms by (intro toFixed_mono_nonneg) simp_all
    then show ?thesis by (simp add: toFixed_minus)
  qed
qed

section \<open>Rounding is idempotent\<close>

lemma double_error: "\<bar>double x - x\<bar> \<le> ulp x / 2"
proof (cases "x = 0")
  case True
  then show ?thesis using ulp_pos [of 0] by simp
next
  case False
  let ?t = "x / ulp x"
  have u: "0 < ulp x" by (rule ulp_pos)
  have "\<bar>real_of_int (rne ?t) - ?t\<bar> \<le> 1 / 2"
    using rne_bounds [of ?t] by linarith
  then have "\<bar>real_of_int (rne ?t) - ?t\<bar> * ulp x \<le> 1 / 2 * ulp x"
    using u by (intro mult_right_mono) simp_all
  moreover have "\<bar>real_of_int (rne ?t) - ?t\<bar> * ulp x = \<bar>real_of_int (rne ?t) * ulp x - x\<bar>"
  proof -
    have "\<bar>real_of_int (rne ?t) - ?t\<bar> * ulp x = \<bar>(real_of_int (rne ?t) - ?t) * ulp x\<bar>"
      using u by (simp add: abs_mult)
    also have "(real_of_int (rne ?t) - ?t) * ulp x = real_of_int (rne ?t) * ulp x - x"
      using u by (simp add: field_simps)
    finally show ?thesis .
  qed
  ultimately show ?thesis using False by (simp add: double_def)
qed

lemma expo_unique:
  assumes "2 powi e \<le> z" "z < 2 powi (e + 1)"
  shows "expo z = e"
proof -
  have z: "0 < z" using assms(1) by (smt (verit) zero_less_power_int zero_less_numeral)
  note b = expo_bounds [OF z]
  have "\<not> expo z < e"
  proof
    assume "expo z < e"
    then have "(2::real) powi (expo z + 1) \<le> 2 powi e" by (intro power_int_increasing) simp_all
    with b(2) assms(1) show False by linarith
  qed
  moreover have "\<not> e < expo z"
  proof
    assume "e < expo z"
    then have "(2::real) powi (e + 1) \<le> 2 powi expo z" by (intro power_int_increasing) simp_all
    with b(1) assms(2) show False by linarith
  qed
  ultimately show ?thesis by linarith
qed

lemma rne_unique:
  assumes "\<bar>t - real_of_int n\<bar> < 1 / 2"
  shows "rne t = n"
proof -
  have "\<bar>real_of_int (rne t) - real_of_int n\<bar> < 1"
    using rne_bounds [of t] assms by linarith
  then have "\<bar>real_of_int (rne t - n)\<bar> < 1" by simp
  then have "\<bar>rne t - n\<bar> < 1" by linarith
  then show ?thesis by linarith
qed

lemma bexp_normal:
  assumes "2 powi e \<le> z" "z < 2 powi (e + 1)" "- 1022 \<le> e"
  shows "bexp z = e"
proof -
  have "0 < z" using assms(1) by (smt (verit) zero_less_power_int zero_less_numeral)
  then have "expo \<bar>z\<bar> = e" using assms(1,2) by (simp add: expo_unique)
  then show ?thesis using assms(3) by (simp add: bexp_def)
qed

text \<open>A real within half a spacing of a normal double, not below its binade, rounds to it.\<close>

lemma double_unique:
  assumes N: "2 ^ 52 \<le> N" "N \<le> 2 ^ 53" and E: "- 1022 \<le> E"
    and z: "2 powi E \<le> z" "\<bar>z - real_of_int N * 2 powi (E - 52)\<bar> < 2 powi (E - 52) / 2"
  shows "double z = real_of_int N * 2 powi (E - 52)"
proof -
  let ?u = "(2::real) powi (E - 52)"
  have u: "0 < ?u" by simp
  have zpos: "0 < z" using z(1) by (smt (verit) zero_less_power_int zero_less_numeral)
  have top: "(2::real) powi (E + 1) = 2 ^ 53 * ?u"
    using powi_shift [of "E - 52" 53] by (simp add: add.commute)
  have bot: "(2::real) powi E = 2 ^ 52 * ?u"
    using powi_shift [of "E - 52" 52] by simp
  show ?thesis
  proof (cases "z < 2 powi (E + 1)")
    case True
    then have "bexp z = E" using z(1) E by (intro bexp_normal)
    then have uz: "ulp z = ?u" by (simp add: ulp_bexp)
    have "\<bar>z / ?u - real_of_int N\<bar> * ?u = \<bar>z - real_of_int N * ?u\<bar>"
    proof -
      have "\<bar>z / ?u - real_of_int N\<bar> * ?u = \<bar>(z / ?u - real_of_int N) * ?u\<bar>"
        by (simp add: abs_mult)
      also have "(z / ?u - real_of_int N) * ?u = z - real_of_int N * ?u"
        by (simp add: field_simps)
      finally show ?thesis .
    qed
    with z(2) have "\<bar>z / ?u - real_of_int N\<bar> * ?u < 1 / 2 * ?u" by simp
    then have "\<bar>z / ?u - real_of_int N\<bar> < 1 / 2" using u by (simp only: mult_less_cancel_right_pos)
    then have "rne (z / ?u) = N" by (rule rne_unique)
    then show ?thesis using zpos uz by (simp add: double_def)
  next
    case False
    then have ge: "2 ^ 53 * ?u \<le> z" using top by simp
    have "z < real_of_int N * ?u + ?u / 2" using z(2) by linarith
    with ge have "2 ^ 53 * ?u < (real_of_int N + 1 / 2) * ?u" by (simp add: algebra_simps)
    then have "2 ^ 53 < real_of_int N + 1 / 2" using u by (simp only: mult_less_cancel_right_pos)
    moreover have "real_of_int N \<le> 2 ^ 53"
      using of_int_le_iff [of N "2 ^ 53", where ?'a = real] N(2) by simp
    ultimately have "real_of_int N = 2 ^ 53"
      using of_int_less_iff [of "2 ^ 53 - 1" N, where ?'a = real] N(2) by simp
    then have Nu: "real_of_int N * ?u = 2 powi (E + 1)" using top by simp
    have lt: "z < 2 powi (E + 1) + ?u / 2" using z(2) Nu by linarith
    have "(2::real) powi (E + 1 + 1) = 2 * 2 powi (E + 1)"
      using powi_shift [of "E + 1" 1] by (simp add: add.commute)
    moreover have "?u / 2 \<le> 2 powi (E + 1)" unfolding top using u by simp
    ultimately have "z < 2 powi (E + 1 + 1)" using lt by linarith
    moreover have "2 powi (E + 1) \<le> z" using False by simp
    ultimately have "bexp z = E + 1" using E by (intro bexp_normal) simp_all
    then have uz: "ulp z = 2 * ?u"
      using powi_shift [of "E - 52" 1] by (simp add: ulp_bexp add.commute)
    have "z / (2 * ?u) - 2 ^ 52 = (z - 2 ^ 53 * ?u) / (2 * ?u)" by (simp add: field_simps)
    moreover have "0 \<le> z - 2 ^ 53 * ?u" "z - 2 ^ 53 * ?u < ?u / 2" using ge lt top by simp_all
    ultimately have "0 \<le> z / (2 * ?u) - 2 ^ 52" "z / (2 * ?u) - 2 ^ 52 < 1 / 4"
      using u by (simp_all add: field_simps)
    then have "\<bar>z / (2 * ?u) - real_of_int (2 ^ 52)\<bar> < 1 / 2" by simp
    then have "rne (z / (2 * ?u)) = 2 ^ 52" by (rule rne_unique)
    then have "double z = 2 ^ 52 * (2 * ?u)" using zpos uz by (simp add: double_def)
    then show ?thesis using Nu top by simp
  qed
qed

lemma double_significand:
  assumes "0 < x"
  shows "\<exists>N. double x = real_of_int N * ulp x \<and> 0 \<le> N \<and> N \<le> 2 ^ 53
    \<and> (- 1022 \<le> expo x \<longrightarrow> 2 ^ 52 \<le> N) \<and> (\<not> - 1022 \<le> expo x \<longrightarrow> N \<le> 2 ^ 52)"
proof -
  let ?N = "rne (x / ulp x)"
  have u: "0 < ulp x" by (rule ulp_pos)
  have d: "double x = real_of_int ?N * ulp x" using assms by (simp add: double_def)
  have "rne 0 \<le> ?N" using assms u by (intro rne_mono) simp
  then have n0: "0 \<le> ?N" by simp
  have top: "(2::real) powi (bexp x + 1) = 2 ^ 53 * ulp x"
    using powi_shift [of "bexp x - 52" 53] by (simp add: ulp_bexp add.commute)
  have "real_of_int ?N * ulp x \<le> 2 ^ 53 * ulp x" using double_upper [OF assms] d top by simp
  then have "real_of_int ?N \<le> 2 ^ 53" using u by (simp only: mult_le_cancel_right_pos)
  then have n1: "?N \<le> 2 ^ 53"
    using of_int_le_iff [of ?N "2 ^ 53", where ?'a = real] by simp
  have n2: "2 ^ 52 \<le> ?N" if "- 1022 \<le> expo x"
  proof -
    have bot: "(2::real) powi bexp x = 2 ^ 52 * ulp x"
      using powi_shift [of "bexp x - 52" 52] by (simp add: ulp_bexp)
    have "2 ^ 52 * ulp x \<le> real_of_int ?N * ulp x"
      using double_lower [OF assms that] d bot by simp
    then have "2 ^ 52 \<le> real_of_int ?N" using u by (simp only: mult_le_cancel_right_pos)
    then show ?thesis using of_int_le_iff [of "2 ^ 52" ?N, where ?'a = real] by simp
  qed
  have n3: "?N \<le> 2 ^ 52" if "\<not> - 1022 \<le> expo x"
  proof -
    have b: "bexp x = - 1022" using that assms by (simp add: bexp_def)
    have bot: "(2::real) powi bexp x = 2 ^ 52 * ulp x"
      using powi_shift [of "bexp x - 52" 52] by (simp add: ulp_bexp)
    have "x < 2 powi (expo x + 1)" using assms by (rule expo_bounds)
    moreover have "expo x + 1 \<le> bexp x" using that b by simp
    then have "(2::real) powi (expo x + 1) \<le> 2 powi bexp x"
      by (intro power_int_increasing) simp_all
    ultimately have "x < 2 ^ 52 * ulp x" using bot by linarith
    then have "x / ulp x \<le> real_of_int (2 ^ 52)" using u by (simp add: field_simps)
    then have "rne (x / ulp x) \<le> rne (real_of_int (2 ^ 52))" by (rule rne_mono)
    then show ?thesis by (simp only: rne_of_int)
  qed
  from d n0 n1 n2 n3 show ?thesis by blast
qed

lemma double_idem_pos:
  assumes "0 < x"
  shows "double (double x) = double x"
proof -
  from double_significand [OF assms] obtain N where
    d: "double x = real_of_int N * ulp x" and n0: "0 \<le> N" and n1: "N \<le> 2 ^ 53"
    and n2: "- 1022 \<le> expo x \<longrightarrow> 2 ^ 52 \<le> N"
    and n3: "\<not> - 1022 \<le> expo x \<longrightarrow> N \<le> 2 ^ 52" by blast
  have u: "0 < ulp x" by (rule ulp_pos)
  show ?thesis
  proof (cases "- 1022 \<le> expo x")
    case True
    then have b: "bexp x = expo x" using assms by (simp add: bexp_def)
    have "double (double x) = real_of_int N * 2 powi (bexp x - 52)"
    proof (rule double_unique)
      show "2 ^ 52 \<le> N" using n2 True by simp
      show "N \<le> 2 ^ 53" by (rule n1)
      show "- 1022 \<le> bexp x" by (simp add: bexp_def)
      show "2 powi bexp x \<le> double x" using assms True by (rule double_lower)
      show "\<bar>double x - real_of_int N * 2 powi (bexp x - 52)\<bar> < 2 powi (bexp x - 52) / 2"
        using d by (simp add: ulp_bexp)
    qed
    then show ?thesis using d by (simp add: ulp_bexp)
  next
    case False
    then have b: "bexp x = - 1022" using assms by (simp add: bexp_def)
    have bot: "(2::real) powi bexp x = 2 ^ 52 * ulp x"
      using powi_shift [of "bexp x - 52" 52] by (simp add: ulp_bexp)
    consider "N = 0" | "N = 2 ^ 52" | "0 < N" "N < 2 ^ 52" | "2 ^ 52 < N" using n0 by linarith
    then show ?thesis
    proof cases
      case 1
      then show ?thesis using d by simp
    next
      case 2
      have "double (double x) = real_of_int N * 2 powi (bexp x - 52)"
      proof (rule double_unique)
        show "2 ^ 52 \<le> N" "N \<le> 2 ^ 53" using 2 by simp_all
        show "- 1022 \<le> bexp x" by (simp add: bexp_def)
        show "2 powi bexp x \<le> double x" unfolding d bot using 2 by simp
        show "\<bar>double x - real_of_int N * 2 powi (bexp x - 52)\<bar> < 2 powi (bexp x - 52) / 2"
          using d by (simp add: ulp_bexp)
      qed
      then show ?thesis using d by (simp add: ulp_bexp)
    next
      case 3
      have pos: "0 < double x" using d 3 u by simp
      have "real_of_int N < 2 ^ 52"
        using of_int_less_iff [of N "2 ^ 52", where ?'a = real] 3 by simp
      then have "real_of_int N * ulp x < 2 ^ 52 * ulp x"
        using u by (simp only: mult_less_cancel_right_pos)
      then have lt: "double x < 2 powi bexp x" unfolding d bot .
      have "\<not> - 1022 \<le> expo (double x)"
      proof
        assume "- 1022 \<le> expo (double x)"
        then have "bexp x \<le> expo (double x)" using b by simp
        then have "(2::real) powi bexp x \<le> 2 powi expo (double x)"
          by (intro power_int_increasing) simp_all
        with expo_bounds(1) [OF pos] lt show False by linarith
      qed
      then have "bexp (double x) = bexp x" using pos b by (simp add: bexp_def)
      then have ub: "ulp (double x) = ulp x" by (simp add: ulp_bexp)
      have "double x / ulp x = real_of_int N" using d u by simp
      then have r: "rne (double x / ulp x) = N" by (simp only: rne_of_int)
      have "double (double x) = real_of_int (rne (double x / ulp (double x))) * ulp (double x)"
        using pos by (simp add: double_def [of "double x"])
      also have "\<dots> = real_of_int N * ulp x" by (simp only: ub r)
      finally show ?thesis by (simp only: d)
    next
      case 4
      then show ?thesis using n3 False by simp
    qed
  qed
qed

lemma double_idem [simp]: "double (double x) = double x"
proof -
  consider "0 < x" | "x = 0" | "x < 0" by linarith
  then show ?thesis
  proof cases
    case 1
    then show ?thesis by (rule double_idem_pos)
  next
    case 2
    then show ?thesis by simp
  next
    case 3
    then have "double (double (- x)) = double (- x)" by (intro double_idem_pos) simp
    then show ?thesis by (simp add: double_minus)
  qed
qed

lemma double_1e21: "double (10 ^ 21) = 10 ^ 21"
  by (simp add: double_def ulp_def expo_def rne_def ilog2.simps Let_def)

lemma toFixed_grid:
  assumes "0 \<le> b" "b * 10 ^ d = real_of_int m"
  shows "toFixed b d = b"
proof -
  have "\<lfloor>b * 10 ^ d + 1 / 2\<rfloor> = m" unfolding assms(2) by linarith
  then have "real_of_int \<lfloor>b * 10 ^ d + 1 / 2\<rfloor> / 10 ^ d = b"
    using assms(2) by (simp add: field_simps)
  then show ?thesis using assms(1) by (simp add: toFixed_nonneg_eq)
qed

lemma toFixed_of_nat_pow: "toFixed (2 ^ n) d = 2 ^ n"
proof (rule toFixed_grid)
  show "(0::real) \<le> 2 ^ n" by simp
  show "(2::real) ^ n * 10 ^ d = real_of_int (2 ^ n * 10 ^ d)" by simp
qed

text \<open>Where the doubles are finer than the decimal grid, a grid point survives the round trip.\<close>

lemma toFixed_double_fine:
  assumes k: "0 \<le> k" and x: "x = real_of_int k / 10 ^ d" and fine: "ulp x * 10 ^ d < 1"
    and small: "double x < 10 ^ 21"
  shows "toFixed (double x) d = x"
proof -
  have b0: "0 \<le> double x" using k x by (intro double_nonneg) simp
  have "\<bar>double x - x\<bar> * 10 ^ d \<le> ulp x / 2 * 10 ^ d"
    using double_error [of x] by (intro mult_right_mono) simp_all
  moreover have "\<bar>double x - x\<bar> * 10 ^ d = \<bar>double x * 10 ^ d - real_of_int k\<bar>"
  proof -
    have "\<bar>double x - x\<bar> * 10 ^ d = \<bar>(double x - x) * 10 ^ d\<bar>" by (simp add: abs_mult)
    also have "(double x - x) * 10 ^ d = double x * 10 ^ d - real_of_int k"
      using x by (simp add: field_simps)
    finally show ?thesis .
  qed
  ultimately have "\<bar>double x * 10 ^ d - real_of_int k\<bar> < 1 / 2" using fine by linarith
  then have "\<lfloor>double x * 10 ^ d + 1 / 2\<rfloor> = k" by linarith
  then show ?thesis using b0 small x by (simp add: toFixed_nonneg_eq)
qed

text \<open>Where the doubles are at least as coarse as the decimal grid, a double survives it.\<close>

lemma toFixed_double_coarse:
  assumes d: "(10::real) ^ d \<le> 2 ^ 52" and x: "0 < x"
    and coarse: "1 \<le> ulp x * 10 ^ d" and small: "double x < 10 ^ 21"
  shows "double (toFixed (double x) d) = double x"
proof -
  let ?E = "bexp x"
  let ?u = "(2::real) powi (?E - 52)"
  let ?b = "double x"
  let ?t = "?b * 10 ^ d"
  let ?z = "toFixed ?b d"
  have u: "ulp x = ?u" by (rule ulp_bexp)
  have upos: "0 < ?u" by simp
  have E0: "0 \<le> ?E"
  proof (rule ccontr)
    assume "\<not> 0 \<le> ?E"
    then have "?E - 52 \<le> - 53" by simp
    then have "?u \<le> 2 powi (- 53)" by (intro power_int_increasing) simp_all
    then have "?u * 10 ^ d \<le> 2 powi (- 53) * 2 ^ 52" using d by (intro mult_mono) simp_all
    also have "\<dots> < 1" by simp
    finally show False using coarse u by simp
  qed
  then have normal: "- 1022 \<le> expo x" and Ex: "?E = expo x" using x by (simp_all add: bexp_def)
  from double_significand [OF x] normal obtain N where
    b: "?b = real_of_int N * ?u" and N: "2 ^ 52 \<le> N" "N \<le> 2 ^ 53" unfolding u by blast
  have lower: "2 powi ?E \<le> ?b" using x normal by (rule double_lower)
  have b0: "0 \<le> ?b" using x by (intro double_nonneg) simp
  have z: "?z = real_of_int \<lfloor>?t + 1 / 2\<rfloor> / 10 ^ d"
    using b0 small by (simp add: toFixed_nonneg_eq)
  show ?thesis
  proof (cases "?t \<in> \<int>")
    case True
    then obtain m where "?t = real_of_int m" by (auto elim: Ints_cases)
    with b0 have "?z = ?b" by (rule toFixed_grid)
    then show ?thesis by simp
  next
    case False
    have ne: "?u * 10 ^ d \<noteq> 1"
    proof
      assume "?u * 10 ^ d = 1"
      then have "?t = real_of_int N" unfolding b by (simp add: mult.assoc)
      with False show False by simp
    qed
    with coarse u have gt: "1 < ?u * 10 ^ d" by simp
    have "\<bar>real_of_int \<lfloor>?t + 1 / 2\<rfloor> - ?t\<bar> \<le> 1 / 2" by linarith
    then have "\<bar>real_of_int \<lfloor>?t + 1 / 2\<rfloor> - ?t\<bar> < ?u * 10 ^ d / 2" using gt by linarith
    moreover have "\<bar>real_of_int \<lfloor>?t + 1 / 2\<rfloor> - ?t\<bar> = \<bar>?z - ?b\<bar> * 10 ^ d"
    proof -
      have "\<bar>?z - ?b\<bar> * 10 ^ d = \<bar>(?z - ?b) * 10 ^ d\<bar>" by (simp add: abs_mult)
      also have "(?z - ?b) * 10 ^ d = real_of_int \<lfloor>?t + 1 / 2\<rfloor> - ?t"
        unfolding z by (simp add: field_simps)
      finally show ?thesis by simp
    qed
    ultimately have "\<bar>?z - ?b\<bar> * 10 ^ d < ?u / 2 * 10 ^ d" by simp
    then have near: "\<bar>?z - ?b\<bar> < ?u / 2" by simp
    have "(2::real) powi ?E = 2 ^ nat ?E" using E0 by (simp add: power_int_def)
    then have "toFixed (2 powi ?E) d = 2 powi ?E" by (simp only: toFixed_of_nat_pow)
    moreover have "toFixed (2 powi ?E) d \<le> ?z" using lower by (rule toFixed_mono)
    ultimately have above: "2 powi ?E \<le> ?z" by simp
    have "double ?z = real_of_int N * ?u"
    proof (rule double_unique)
      show "2 ^ 52 \<le> N" "N \<le> 2 ^ 53" by (rule N)+
      show "- 1022 \<le> ?E" by (simp add: bexp_def)
      show "2 powi ?E \<le> ?z" by (rule above)
      show "\<bar>?z - real_of_int N * ?u\<bar> < ?u / 2" using near b by simp
    qed
    then show ?thesis using b by simp
  qed
qed

lemma plus_toFixed_idem_nonneg:
  assumes d: "(10::real) ^ d \<le> 2 ^ 52" and y: "0 \<le> y"
  shows "plus_toFixed (plus_toFixed y d) d = plus_toFixed y d"
proof -
  let ?x = "toFixed y d"
  let ?b = "double ?x"
  have x0: "0 \<le> ?x" using y by (rule toFixed_nonneg)
  have goal: "double (toFixed ?b d) = ?b"
  proof (cases "10 ^ 21 \<le> ?b")
    case True
    then have "toFixed ?b d = ?b" by (simp add: toFixed_def)
    then show ?thesis by simp
  next
    case False
    then have small: "?b < 10 ^ 21" by simp
    have xs: "?x < 10 ^ 21"
    proof (rule ccontr)
      assume "\<not> ?x < 10 ^ 21"
      then have "double (10 ^ 21) \<le> ?b" by (intro double_mono) simp
      with small show False using double_1e21 by simp
    qed
    then have ys: "y < 10 ^ 21" using y by (auto simp: toFixed_def split: if_splits)
    define k where "k = \<lfloor>y * 10 ^ d + 1 / 2\<rfloor>"
    have k0: "0 \<le> k" unfolding k_def using y by simp
    have xk: "?x = real_of_int k / 10 ^ d" using y ys by (simp add: toFixed_nonneg_eq k_def)
    show ?thesis
    proof (cases "?x = 0")
      case True
      then show ?thesis by (simp add: toFixed_def)
    next
      case False
      with x0 have xp: "0 < ?x" by simp
      show ?thesis
      proof (cases "ulp ?x * 10 ^ d < 1")
        case True
        with k0 xk small have "toFixed ?b d = ?x" by (intro toFixed_double_fine [where k = k])
        then show ?thesis by simp
      next
        case False
        then have "1 \<le> ulp ?x * 10 ^ d" by simp
        with d xp small show ?thesis by (intro toFixed_double_coarse)
      qed
    qed
  qed
  then show ?thesis by (simp add: plus_toFixed_def)
qed

lemma plus_toFixed_minus: "plus_toFixed (- y) d = - plus_toFixed y d"
  by (simp add: plus_toFixed_def toFixed_minus double_minus)

lemma plus_toFixed_idem:
  assumes "(10::real) ^ d \<le> 2 ^ 52"
  shows "plus_toFixed (plus_toFixed y d) d = plus_toFixed y d"
proof (cases "0 \<le> y")
  case True
  with assms show ?thesis by (rule plus_toFixed_idem_nonneg)
next
  case False
  then have "plus_toFixed (plus_toFixed (- y) d) d = plus_toFixed (- y) d"
    using assms by (intro plus_toFixed_idem_nonneg) simp_all
  then show ?thesis by (simp add: plus_toFixed_minus)
qed

lemma representable_plus_toFixed:
  assumes "(10::real) ^ d \<le> 2 ^ 52"
  shows "representable d (plus_toFixed y d)"
  using plus_toFixed_idem [OF assms] by (simp add: representable_def plus_toFixed_def)

section \<open>Consequences for the operators\<close>

lemma plus_toFixed_mono: "x \<le> y \<Longrightarrow> plus_toFixed x d \<le> plus_toFixed y d"
  by (simp add: plus_toFixed_def double_mono toFixed_mono)

lemma plus_toFixed_nonneg: "0 \<le> x \<Longrightarrow> 0 \<le> plus_toFixed x d"
  by (simp add: plus_toFixed_def double_nonneg toFixed_nonneg)

lemma add_nonneg: "0 \<le> x \<Longrightarrow> 0 \<le> y \<Longrightarrow> 0 \<le> add x y"
  by (simp add: add_def double_nonneg)

lemma mul_nonneg: "0 \<le> x \<Longrightarrow> 0 \<le> y \<Longrightarrow> 0 \<le> mul x y"
  by (simp add: mul_def double_nonneg)

lemma sub_nonneg: "y \<le> x \<Longrightarrow> 0 \<le> sub x y"
  by (simp add: sub_def double_nonneg)

lemma add_mono_js: "x \<le> x' \<Longrightarrow> y \<le> y' \<Longrightarrow> add x y \<le> add x' y'"
  by (simp add: add_def double_mono)

lemma Math_round_mono: "x \<le> y \<Longrightarrow> Math_round x \<le> Math_round y"
  by (simp add: Math_round_def floor_mono)

lemma mint_rec_nonneg: "0 \<le> kwh \<Longrightarrow> 0 \<le> mint_rec kwh"
  by (simp add: mint_rec_def plus_toFixed_nonneg mul_nonneg double_nonneg)

lemma mint_carbon_nonneg: "0 \<le> kwh \<Longrightarrow> 0 \<le> mint_carbon kwh"
  by (simp add: mint_carbon_def plus_toFixed_nonneg mul_nonneg double_nonneg)

lemma tick_nonneg:
  "0 \<le> rnd \<Longrightarrow> 0 \<le> plus_toFixed (add (mul rnd (double (11 / 10))) (double (1 / 10))) 3"
  by (intro plus_toFixed_nonneg add_nonneg mul_nonneg double_nonneg) simp_all

text \<open>Adding a non-negative amount and rounding again never goes below a representable value.\<close>

lemma accumulate_ge:
  assumes "representable d x" "0 \<le> y"
  shows "x \<le> plus_toFixed (add x y) d"
proof -
  have "double x \<le> add x y" using assms(2) by (simp add: add_def double_mono)
  then have "x \<le> add x y" using assms(1) by (simp add: representable_def)
  then have "plus_toFixed x d \<le> plus_toFixed (add x y) d" by (rule plus_toFixed_mono)
  then show ?thesis using assms(1) by (simp add: representable_def)
qed

text \<open>The amount reserved never exceeds a representable balance that covers the request.\<close>

lemma reserve_le:
  assumes "representable 6 r" "a \<le> r"
  shows "plus_toFixed a 6 \<le> r"
proof -
  have "plus_toFixed a 6 \<le> plus_toFixed r 6" using assms(2) by (rule plus_toFixed_mono)
  then show ?thesis using assms(1) by (simp add: representable_def)
qed

section \<open>What each handler changes\<close>

lemma meterTick_fields:
  "kwhTotal (meterTick rnd s) =
     plus_toFixed (add (kwhTotal s)
       (plus_toFixed (add (mul rnd (double (11 / 10))) (double (1 / 10))) 3)) 3"
  "carbonKg (meterTick rnd s) =
     plus_toFixed (add (carbonKg s)
       (mint_carbon (plus_toFixed (add (mul rnd (double (11 / 10))) (double (1 / 10))) 3))) 3"
  "recBalance (meterTick rnd s) =
     plus_toFixed (add (recBalance s)
       (mint_rec (plus_toFixed (add (mul rnd (double (11 / 10))) (double (1 / 10))) 3))) 6"
  "orders (meterTick rnd s) = orders s"
  "timeouts (meterTick rnd s) = timeouts s"
  by (simp_all add: meterTick_def mintTokensForKwh_def Let_def)

lemma settle_fields:
  "kwhTotal (settle c s) = kwhTotal s"
  "carbonKg (settle c s) = carbonKg s"
  "orders (settle c s) = orders s"
  "timeouts (settle c s) = timeouts s"
  "recBalance (settle c s) =
     (if Some (c_buyer c) = map_option u_energyId (c_user c)
      then plus_toFixed (add (recBalance s) (o_rec (c_order c))) 6 else recBalance s)"
  by (simp_all add: settle_def Let_def)

lemma placeSellOrder_fields:
  assumes "placeSellOrder now s = Inr s'"
  shows "kwhTotal s' = kwhTotal s" "carbonKg s' = carbonKg s" "timeouts s' = timeouts s"
    "recBalance s' = plus_toFixed (sub (recBalance s) (plus_toFixed (placeRECs s) 6)) 6"
    "\<exists>order. orders s' = order # orders s \<and> o_rec order = plus_toFixed (placeRECs s) 6"
    "0 < placeRECs s" "placeRECs s \<le> recBalance s"
  using assms by (auto simp: placeSellOrder_def Let_def split: option.splits if_splits)

lemma generateGIC_fields:
  assumes "generateGIC now s = Inr s'"
  shows "kwhTotal s' = kwhTotal s" "carbonKg s' = carbonKg s" "timeouts s' = timeouts s"
    "recBalance s' = recBalance s" "orders s' = orders s"
  using assms by (auto simp: generateGIC_def split: option.splits)

section \<open>The ledger stays in order\<close>

lemma representable_zero: "representable d 0"
  by (simp add: representable_def plus_toFixed_def toFixed_def)

lemma representable_3: "representable 3 (plus_toFixed y 3)"
  by (rule representable_plus_toFixed) simp

lemma representable_6: "representable 6 (plus_toFixed y 6)"
  by (rule representable_plus_toFixed) simp

text \<open>One event keeps the meter totals representable and does not lower them, Reset apart.\<close>

lemma meter_step:
  assumes "enabled s e" "representable 3 (kwhTotal s)" "representable 3 (carbonKg s)"
  shows "representable 3 (kwhTotal (step s e)) \<and> representable 3 (carbonKg (step s e))
    \<and> (e \<noteq> Reset \<longrightarrow> kwhTotal s \<le> kwhTotal (step s e) \<and> carbonKg s \<le> carbonKg (step s e))"
proof (cases e)
  case (Tick rnd)
  then have r: "0 \<le> rnd" using assms(1) by simp
  have "kwhTotal s \<le> kwhTotal (meterTick rnd s)"
    unfolding meterTick_fields using assms(2) r by (intro accumulate_ge tick_nonneg)
  moreover have "carbonKg s \<le> carbonKg (meterTick rnd s)"
    unfolding meterTick_fields using assms(3) r
    by (intro accumulate_ge mint_carbon_nonneg tick_nonneg)
  ultimately show ?thesis using Tick by (simp add: meterTick_fields representable_3)
next
  case (Place now)
  then show ?thesis using assms(2,3)
    by (cases "placeSellOrder now s") (simp_all add: placeSellOrder_fields)
next
  case (Generate now)
  then show ?thesis using assms(2,3)
    by (cases "generateGIC now s") (simp_all add: generateGIC_fields)
next
  case Settlement
  then show ?thesis using assms(2,3)
    by (cases "timeouts s") (simp_all add: settle_fields)
qed (use assms(2,3) in \<open>simp_all add: handleOnboard_def buyOrder_def Let_def representable_zero\<close>)

text \<open>One event keeps the credit balance representable and non-negative, and the amounts.\<close>

lemma credit_step:
  assumes "0 \<le> recBalance s" "representable 6 (recBalance s)" "amounts_ok s" "enabled s e"
  shows "0 \<le> recBalance (step s e) \<and> representable 6 (recBalance (step s e))
    \<and> amounts_ok (step s e)"
proof (cases e)
  case (Tick rnd)
  then have r: "0 \<le> rnd" using assms(4) by simp
  have "0 \<le> recBalance (meterTick rnd s)"
    unfolding meterTick_fields using assms(1) r
    by (intro plus_toFixed_nonneg add_nonneg mint_rec_nonneg tick_nonneg)
  then show ?thesis using Tick assms(3)
    by (simp add: amounts_ok_def meterTick_fields representable_6)
next
  case (Place now)
  show ?thesis
  proof (cases "placeSellOrder now s")
    case (Inl msg)
    then show ?thesis using Place assms(1,2,3) by simp
  next
    case (Inr s')
    note f = placeSellOrder_fields [OF Inr]
    have le: "plus_toFixed (placeRECs s) 6 \<le> recBalance s"
      using assms(2) f(7) by (rule reserve_le)
    have "0 \<le> recBalance s'" unfolding f(4) using le by (intro plus_toFixed_nonneg sub_nonneg)
    moreover have "representable 6 (recBalance s')" unfolding f(4) by (rule representable_6)
    moreover have "0 \<le> plus_toFixed (placeRECs s) 6" using f(6) by (intro plus_toFixed_nonneg) simp
    then have "amounts_ok s'" using f(3,5) assms(3) by (auto simp: amounts_ok_def)
    ultimately show ?thesis using Place Inr by simp
  qed
next
  case (Buy order now)
  then have "order \<in> set (orders s)" using assms(4) by simp
  then have "0 \<le> o_rec order" using assms(3) by (simp add: amounts_ok_def)
  then show ?thesis using Buy assms(1,2,3)
    by (auto simp: buyOrder_def new_closure_def amounts_ok_def)
next
  case Settlement
  show ?thesis
  proof (cases "timeouts s")
    case Nil
    then show ?thesis using Settlement assms(1,2,3) by simp
  next
    case (Cons c cs)
    then have c: "0 \<le> o_rec (c_order c)" and cs: "\<forall>c' \<in> set cs. 0 \<le> o_rec (c_order c')"
      using assms(3) by (simp_all add: amounts_ok_def)
    have "0 \<le> plus_toFixed (add (recBalance s) (o_rec (c_order c))) 6"
      using assms(1) c by (intro plus_toFixed_nonneg add_nonneg)
    then show ?thesis using Settlement Cons assms(1,2,3) cs
      by (simp add: settle_fields amounts_ok_def representable_6)
  qed
next
  case (Generate now)
  then show ?thesis using assms(1,2,3)
    by (cases "generateGIC now s") (simp_all add: generateGIC_fields amounts_ok_def)
qed (use assms(1,2,3) in \<open>simp_all add: handleOnboard_def amounts_ok_def Let_def representable_zero\<close>)

lemma amounts_ok_init: "amounts_ok (init t)"
  by (simp add: amounts_ok_def init_def double_nonneg)

lemma ledger_ok_init: "ledger_ok (init t)"
  using amounts_ok_init [of t] by (simp add: ledger_ok_def representable_zero) (simp add: init_def representable_zero)

lemma ledger_ok_step: "ledger_ok s \<Longrightarrow> enabled s e \<Longrightarrow> ledger_ok (step s e)"
  using meter_step [of s e] credit_step [of s e] by (simp add: ledger_ok_def)

lemma ledger_ok_run: "ledger_ok s \<Longrightarrow> feasible s es \<Longrightarrow> ledger_ok (foldl step s es)"
  by (induction es arbitrary: s) (simp_all add: ledger_ok_step)

section \<open>Evaluation of the example runs\<close>

lemmas num_eval = double_def ulp_def expo_def rne_def toFixed_def plus_toFixed_def
  add_def sub_def mul_def ilog2.simps Let_def

lemma run_snoc: "run (es @ [e]) = step (run es) e"
  by (simp add: run_def)

lemma run_snoc2: "run (es @ [e, e']) = step (step (run es) e) e'"
  by (simp add: run_def)

lemma feasible_append: "feasible s (es @ es') = (feasible s es \<and> feasible (foldl step s es) es')"
  by (induction es arbitrary: s) simp_all

lemma feasible_snoc: "feasible (init 0) (es @ [e]) = (feasible (init 0) es \<and> enabled (run es) e)"
  by (simp add: feasible_append run_def)

lemma feasible_snoc2:
  "feasible (init 0) (es @ [e, e'])
     = (feasible (init 0) es \<and> enabled (run es) e \<and> enabled (step (run es) e) e')"
  by (simp add: feasible_append run_def)

lemma onboard_alice:
  "handleOnboard ''Alice'' ''123456781234'' '''' s = s\<lparr>user := Some alice, showOnboard := False\<rparr>"
  by (simp add: handleOnboard_def alice_def createEnergyId_def aadhaarHash_def is_alnum_def
      toLowerCase_def char_of_def bit_Suc_0_iff)

lemma tenth:
  "0 < double (1 / 10)" "double (double (1 / 10)) = double (1 / 10)"
  "plus_toFixed (double (1 / 10)) 3 = double (1 / 10)"
  "plus_toFixed (add (double (1 / 10)) (double (1 / 10))) 3 = double (1 / 5)"
  "plus_toFixed (add 0 (double (1 / 10))) 3 = double (1 / 10)"
  "plus_toFixed (add (mul 0 (double (11 / 10))) (double (1 / 10))) 3 = double (1 / 10)"
  by (simp_all add: num_eval)

lemma two_25ths:
  "0 < double (2 / 25)" "double (double (2 / 25)) = double (2 / 25)"
  "plus_toFixed (double (2 / 25)) 3 = double (2 / 25)"
  "plus_toFixed (add (double (2 / 25)) (double (2 / 25))) 3 = double (4 / 25)"
  "plus_toFixed (add 0 (double (2 / 25))) 3 = double (2 / 25)"
  by (simp_all add: num_eval)

lemma tenth_of_milli:
  "0 < double (1 / 10000)"
  "plus_toFixed (double (1 / 10000)) 6 = double (1 / 10000)"
  "plus_toFixed (sub (double (1 / 10000)) (double (1 / 10000))) 6 = 0"
  "double (double (1 / 10000)) = double (1 / 10000)"
  "plus_toFixed (add 0 (double (1 / 10000))) 6 = double (1 / 10000)"
  "plus_toFixed (add (double (1 / 10000)) (double (1 / 10000))) 6 = double (1 / 5000)"
  "double (1 / 10000) < 1"
  by (simp_all add: num_eval)

lemma mint_tenth:
  "mint_rec (double (1 / 10)) = double (1 / 10000)"
  "mint_carbon (double (1 / 10)) = double (2 / 25)"
  by (simp_all add: mint_rec_def mint_carbon_def num_eval)

lemma tick0:
  "meterTick 0 s = s\<lparr>lastReading := double (1 / 10),
     kwhTotal := plus_toFixed (add (kwhTotal s) (double (1 / 10))) 3,
     recBalance := plus_toFixed (add (recBalance s) (double (1 / 10000))) 6,
     carbonKg := plus_toFixed (add (carbonKg s) (double (2 / 25))) 3\<rparr>"
  by (simp add: meterTick_def mintTokensForKwh_def tenth(6) mint_tenth Let_def)

lemma run_minted:
  "run minted = (init 0)\<lparr>user := Some alice, showOnboard := False, isMeterRunning := True,
     lastReading := double (1 / 10), kwhTotal := double (1 / 10),
     recBalance := double (1 / 10000), carbonKg := double (2 / 25)\<rparr>"
  by (simp add: run_def minted_def onboard_alice tick0 init_def tenth(5) two_25ths(5)
      tenth_of_milli(5))

lemma feasible_minted: "feasible (init 0) minted"
  by (simp add: minted_def init_def handleOnboard_def Let_def)

lemma run_typed: "run typed = (run minted)\<lparr>placeRECs := double (1 / 10000)\<rparr>"
  by (simp add: typed_def run_snoc)

lemma feasible_typed: "feasible (init 0) typed"
  unfolding typed_def feasible_snoc by (simp add: feasible_minted)

lemma place_typed:
  "placeSellOrder 5 (run typed) = Inr ((run typed)\<lparr>orders := own_order # orders (init 0),
     recBalance := 0\<rparr>)"
  using tenth_of_milli(1)
  by (simp add: run_typed run_minted placeSellOrder_def tenth_of_milli(2,3)
      own_order_def init_def alice_def)

lemma run_listing:
  "run listing = (run typed)\<lparr>orders := own_order # orders (init 0), recBalance := 0\<rparr>"
  by (simp add: listing_def run_snoc place_typed)

lemma feasible_listing: "feasible (init 0) listing"
  unfolding listing_def feasible_snoc by (simp add: feasible_typed)

lemma listing_cash: "inrBalance (run listing) = 0"
  by (simp add: run_listing run_typed run_minted init_def)

lemma own_order_sel:
  "o_seller own_order = ''alice@greenpe''" "o_rec own_order = double (1 / 10000)"
  by (simp_all add: own_order_def)

lemma own_order_total: "order_total own_order = 1 / 2"
  by (simp add: order_total_def own_order_def num_eval)

lemma fee_rounding:
  "plus_toFixed (mul (1 / 2) (double (99 / 100))) 2 = double (49 / 100)"
  "plus_toFixed (add 0 (mul (1 / 2) (double (99 / 100)))) 2 = double (49 / 100)"
  "plus_toFixed (add 500 (mul (1 / 2) (double (99 / 100)))) 2 = 1001 / 2"
  "add 0 500 = 500"
  "toFixed (1 / 2 * (99 / 100)) 2 = 1 / 2"
  "double (49 / 100) \<noteq> 1 / 2"
  "add 500 (double (49 / 100)) \<noteq> 1001 / 2"
  "1001 / 2 - 500 \<noteq> double (49 / 100)"
  by (simp_all add: num_eval)

lemma run_funded: "run funded = (run listing)\<lparr>inrBalance := 500\<rparr>"
  by (simp add: funded_def run_snoc run_listing run_typed run_minted init_def fee_rounding)

lemma feasible_funded: "feasible (init 0) funded"
  unfolding funded_def feasible_snoc by (simp add: feasible_listing)

lemmas run_eval = run_snoc2 run_funded run_listing run_typed run_minted buyOrder_def
  new_closure_def order_buyer_def settle_def own_order_total fee_rounding init_def alice_def
  own_order_sel

lemma settled_0: "inrBalance (run sold_0) = double (49 / 100)"
  by (simp add: sold_0_def run_eval)

lemma settled_500:
  "inrBalance (run funded) = 500"
  "inrBalance (run sold_500) = 1001 / 2"
  by (simp_all add: sold_500_def run_eval)

lemma settled_500_rec:
  "recBalance (run funded) = 0"
  "recBalance (run sold_500) = double (1 / 10000)"
  by (simp_all add: sold_500_def run_eval tenth_of_milli(5))

lemma feasible_sold_0: "feasible (init 0) sold_0"
  unfolding sold_0_def feasible_snoc2 by (simp add: feasible_listing run_listing buyOrder_def)

lemma feasible_sold_500: "feasible (init 0) sold_500"
  unfolding sold_500_def feasible_snoc2
  by (simp add: feasible_funded run_funded run_listing buyOrder_def)

lemma fine:
  "0 < double (7 / 5000000)"
  "double (7 / 5000000) \<le> double (1 / 10000)"
  "plus_toFixed (double (7 / 5000000)) 6 = double (1 / 1000000)"
  "plus_toFixed (sub (double (1 / 10000)) (double (1 / 1000000))) 6 = double (99 / 1000000)"
  "0 < double (1 / 1000000)"
  "double (1 / 1000000) \<noteq> double (7 / 5000000)"
  "double (1 / 10000) - double (99 / 1000000) \<noteq> double (7 / 5000000)"
  "double (99 / 1000000) \<noteq> sub (double (1 / 10000)) (double (7 / 5000000))"
  by (simp_all add: num_eval)

lemma run_typed_fine: "run typed_fine = (run minted)\<lparr>placeRECs := double (7 / 5000000)\<rparr>"
  by (simp add: typed_fine_def run_snoc)

lemma feasible_placed_fine: "feasible (init 0) placed_fine"
  unfolding placed_fine_def typed_fine_def feasible_snoc by (simp add: feasible_minted)

lemma place_fine:
  "placeSellOrder 5 (run typed_fine) = Inr (run placed_fine)"
  "o_rec (hd (orders (run placed_fine))) = double (1 / 1000000)"
  "recBalance (run placed_fine) = double (99 / 1000000)"
  "recBalance (run typed_fine) = double (1 / 10000)"
  "placeRECs (run typed_fine) = double (7 / 5000000)"
  "user (run typed_fine) = Some alice"
  using fine(1,2)
  by (simp_all add: placed_fine_def run_snoc run_typed_fine run_minted placeSellOrder_def
      fine(3,4) init_def)

lemma run_anonymous_buy:
  "run anonymous_buy = (init 0)\<lparr>user := Some alice, showOnboard := False,
     tradeHistory := [new_trade seed1 7 (init 0)], orders := tl (orders (init 0))\<rparr>"
  by (simp add: run_def anonymous_buy_def buyOrder_def onboard_alice settle_def new_closure_def
      order_buyer_def seed1_def init_def)

lemma feasible_anonymous_buy: "feasible (init 0) anonymous_buy"
  by (simp add: anonymous_buy_def init_def seed1_def buyOrder_def handleOnboard_def Let_def)

text \<open>The exact logarithm, rounded to a double, is one monotone choice of \<open>Math.log\<close>.\<close>

lemma ideal_log_mono: "\<forall>a b. 0 < a \<and> a \<le> b \<longrightarrow> double (ln a) \<le> double (ln b)"
  by (simp add: double_mono)

lemma double_one: "double 1 = 1"
  by (simp add: num_eval)

section \<open>Buying an order\<close>

text \<open>
  C1. For an order of the book, the synchronous part of \<open>buyOrder\<close> leaves a state in
  which the order is gone from the book (no order with its id is left, so the page offers
  no Buy button for it), the new trade heads the history with the order's id and the
  total \<open>+(rec * pricePerREC).toFixed(2)\<close>, and the settlement is still queued: no
  balance has moved.
\<close>

theorem buyOrder_removes_order:
  assumes "order \<in> set (orders s)"
  shows "order \<notin> set (orders (buyOrder order now s))
    \<and> (\<forall>x \<in> set (orders (buyOrder order now s)). o_id x \<noteq> o_id order)
    \<and> (\<forall>t. \<not> enabled (buyOrder order now s) (Buy order t))
    \<and> tradeHistory (buyOrder order now s) = new_trade order now s # tradeHistory s
    \<and> t_orderId (hd (tradeHistory (buyOrder order now s))) = o_id order
    \<and> t_total (hd (tradeHistory (buyOrder order now s)))
        = plus_toFixed (mul (o_rec order) (o_pricePerREC order)) 2
    \<and> timeouts (buyOrder order now s) = timeouts s @ [new_closure order now s]
    \<and> inrBalance (buyOrder order now s) = inrBalance s
    \<and> recBalance (buyOrder order now s) = recBalance s"
  by (simp add: buyOrder_def new_trade_def order_total_def)

theorem buyOrder_removes_order_witness:
  "seed1 \<in> set (orders (init 0))
   \<and> seed1 \<notin> set (orders (buyOrder seed1 7 (init 0)))
   \<and> length (orders (buyOrder seed1 7 (init 0))) = 1
   \<and> t_orderId (hd (tradeHistory (buyOrder seed1 7 (init 0)))) = ''ORD-1''
   \<and> t_total (hd (tradeHistory (buyOrder seed1 7 (init 0)))) = 2600"
  using buyOrder_removes_order [of seed1 "init 0" 7]
  by (simp add: init_def seed1_def buyOrder_def num_eval)

section \<open>Settlement\<close>

text \<open>
  C2, as amended. When the settlement of a trade made by \<open>buyOrder\<close> runs, as the
  first callback of the queue and in whatever state the page is by then: if the account active at the purchase is the order's seller,
  the cash balance becomes \<open>+(inrBalance + total * 0.99).toFixed(2)\<close>, the sum rounded
  once; if an account was active at the purchase it is the buyer, and the credit balance
  becomes \<open>+(recBalance + rec).toFixed(6)\<close>; both happen in one settlement when the
  account bought its own order, and a balance whose condition fails is left as it was.
\<close>

theorem settle_credits:
  "inrBalance (settle (new_closure order now s) s') =
     (if Some (o_seller order) = map_option u_energyId (user s)
      then plus_toFixed (add (inrBalance s') (mul (order_total order) (double (99 / 100)))) 2
      else inrBalance s')
   \<and> recBalance (settle (new_closure order now s) s') =
     (if user s \<noteq> None then plus_toFixed (add (recBalance s') (o_rec order)) 6
      else recBalance s')
   \<and> (Some (order_buyer s) = map_option u_energyId (user s) \<longleftrightarrow> user s \<noteq> None)
   \<and> (timeouts s' = new_closure order now s # cs \<longrightarrow>
        step s' Settlement = settle (new_closure order now s) (s'\<lparr>timeouts := cs\<rparr>))"
  by (auto simp: settle_def new_closure_def order_buyer_def Let_def split: option.splits)

text \<open>
  Alice buys her own order of 0.0001 credits at 5000, total 0.50, and
  \<open>+(0.5 * 0.99).toFixed(2)\<close> is 0.49. With 500 in the wallet the settlement leaves
  500.50, an increase of 0.50. With an empty wallet it leaves 0.49, while the product
  0.495 taken exactly rounds to 0.50. The same trade raises the two wallets by different
  amounts.
\<close>

theorem settlement_increment_counterexample:
  "feasible (init 0) sold_500
   \<and> inrBalance (run funded) = 500
   \<and> inrBalance (run sold_500) = 1001 / 2
   \<and> plus_toFixed (mul (order_total own_order) (double (99 / 100))) 2 = double (49 / 100)
   \<and> inrBalance (run sold_500)
       \<noteq> add (inrBalance (run funded))
            (plus_toFixed (mul (order_total own_order) (double (99 / 100))) 2)
   \<and> inrBalance (run sold_500) - inrBalance (run funded)
       \<noteq> plus_toFixed (mul (order_total own_order) (double (99 / 100))) 2
   \<and> feasible (init 0) sold_0
   \<and> inrBalance (run listing) = 0
   \<and> inrBalance (run sold_0) - inrBalance (run listing)
       \<noteq> toFixed (order_total own_order * (99 / 100)) 2
   \<and> inrBalance (run sold_500) - inrBalance (run funded)
       \<noteq> inrBalance (run sold_0) - inrBalance (run listing)"
proof -
  have fee: "plus_toFixed (mul (order_total own_order) (double (99 / 100))) 2 = double (49 / 100)"
    by (simp only: own_order_total fee_rounding)
  have exact: "toFixed (order_total own_order * (99 / 100)) 2 = 1 / 2"
    by (simp only: own_order_total fee_rounding)
  have a: "inrBalance (run sold_500)
       \<noteq> add (inrBalance (run funded))
            (plus_toFixed (mul (order_total own_order) (double (99 / 100))) 2)"
    unfolding fee settled_500 using fee_rounding(7) by simp
  have b: "inrBalance (run sold_500) - inrBalance (run funded)
       \<noteq> plus_toFixed (mul (order_total own_order) (double (99 / 100))) 2"
    unfolding fee settled_500 by (rule fee_rounding(8))
  have c: "inrBalance (run sold_0) - inrBalance (run listing)
       \<noteq> toFixed (order_total own_order * (99 / 100)) 2"
    unfolding exact settled_0 listing_cash using fee_rounding(6) by simp
  have e: "inrBalance (run sold_500) - inrBalance (run funded)
       \<noteq> inrBalance (run sold_0) - inrBalance (run listing)"
    unfolding settled_0 settled_500 listing_cash using fee_rounding(6) by simp
  from feasible_sold_500 settled_500 fee a b feasible_sold_0 listing_cash c e
  show ?thesis by blast
qed

theorem settle_credits_witness:
  "inrBalance (run funded) = 500 \<and> recBalance (run funded) = 0
   \<and> inrBalance (run sold_500) = 1001 / 2 \<and> recBalance (run sold_500) = double (1 / 10000)"
  using settle_credits [of own_order 9 "run funded"
      "(buyOrder own_order 9 (run funded))\<lparr>timeouts := []\<rparr>"] settled_500 settled_500_rec
  by blast

section \<open>Placing a sell order\<close>

text \<open>
  C3. \<open>placeSellOrder\<close> stops with an alert exactly when no account is onboarded, or the
  amount is at most 0, or the amount exceeds the credit balance; and then the handler
  leaves the whole state as it was.
\<close>

theorem placeSellOrder_rejects:
  "((\<exists>msg. placeSellOrder now s = Inl msg)
      \<longleftrightarrow> user s = None \<or> placeRECs s \<le> 0 \<or> placeRECs s > recBalance s)
   \<and> ((\<exists>msg. placeSellOrder now s = Inl msg) \<longrightarrow> step s (Place now) = s)"
  by (auto simp: placeSellOrder_def Let_def split: option.splits)

theorem placeSellOrder_rejects_witness:
  "placeSellOrder 5 (init 0) = Inl ''Please onboard first''
   \<and> step (init 0) (Place 5) = init 0
   \<and> placeSellOrder 5 ((run minted)\<lparr>placeRECs := 0\<rparr>) = Inl ''Invalid REC amount''
   \<and> placeSellOrder 5 ((run minted)\<lparr>placeRECs := 1\<rparr>) = Inl ''Invalid REC amount''
   \<and> placeSellOrder 5 (run typed) = Inr (run listing)"
proof -
  have h: "placeSellOrder 5 (init 0) = Inl ''Please onboard first''"
    "step (init 0) (Place 5) = init 0"
    "placeSellOrder 5 ((run minted)\<lparr>placeRECs := 0\<rparr>) = Inl ''Invalid REC amount''"
    "placeSellOrder 5 ((run minted)\<lparr>placeRECs := 1\<rparr>) = Inl ''Invalid REC amount''"
    using tenth_of_milli(7) by (simp_all add: placeSellOrder_def run_minted init_def)
  have r: "placeSellOrder 5 (run typed) = Inr (run listing)" by (simp add: place_typed run_listing)
  from placeSellOrder_rejects [of 5 "init 0"] h r show ?thesis by blast
qed

text \<open>
  C4, as amended. With an account onboarded, \<open>0 < amt \<le> recBalance\<close>, and an amount
  that is still positive when printed with six decimals, \<open>placeSellOrder\<close> succeeds, the
  new order heads the list with the amount \<open>+amt.toFixed(6)\<close> at the price of the form,
  and the credit balance becomes \<open>+(recBalance - +amt.toFixed(6)).toFixed(6)\<close>; the
  order is for \<open>amt\<close> itself when \<open>amt\<close> has at most six decimals.
\<close>

theorem placeSellOrder_reserves:
  assumes "user s = Some u" "0 < placeRECs s" "placeRECs s \<le> recBalance s"
    and "0 < plus_toFixed (placeRECs s) 6"
  shows "\<exists>s'. placeSellOrder now s = Inr s'
    \<and> orders s' = \<lparr>o_id = ''ORD-'' @ digits now, o_seller = u_energyId u,
          o_rec = plus_toFixed (placeRECs s) 6, o_pricePerREC = placePrice s,
          o_createdAt = now\<rparr> # orders s
    \<and> 0 < o_rec (hd (orders s'))
    \<and> recBalance s' = plus_toFixed (sub (recBalance s) (plus_toFixed (placeRECs s) 6)) 6
    \<and> (plus_toFixed (placeRECs s) 6 = placeRECs s \<longrightarrow> o_rec (hd (orders s')) = placeRECs s)"
  using assms by (simp add: placeSellOrder_def Let_def)

text \<open>
  With a balance of 0.0001 Alice asks for 0.0000014: the order is listed for 0.000001
  credits and the balance becomes 0.000099, which is neither 0.0001 - 0.0000014 computed
  exactly nor that difference as a double.
\<close>

theorem reservation_rounding_counterexample:
  "feasible (init 0) placed_fine
   \<and> user (run typed_fine) = Some alice
   \<and> 0 < placeRECs (run typed_fine)
   \<and> placeRECs (run typed_fine) \<le> recBalance (run typed_fine)
   \<and> placeSellOrder 5 (run typed_fine) = Inr (run placed_fine)
   \<and> o_rec (hd (orders (run placed_fine))) = double (1 / 1000000)
   \<and> 0 < o_rec (hd (orders (run placed_fine)))
   \<and> o_rec (hd (orders (run placed_fine))) \<noteq> placeRECs (run typed_fine)
   \<and> recBalance (run typed_fine) - recBalance (run placed_fine) \<noteq> placeRECs (run typed_fine)
   \<and> recBalance (run placed_fine)
       \<noteq> sub (recBalance (run typed_fine)) (placeRECs (run typed_fine))"
proof -
  have p: "0 < placeRECs (run typed_fine)"
    "placeRECs (run typed_fine) \<le> recBalance (run typed_fine)"
    unfolding place_fine by (rule fine(1), rule fine(2))
  have o: "0 < o_rec (hd (orders (run placed_fine)))"
    "o_rec (hd (orders (run placed_fine))) \<noteq> placeRECs (run typed_fine)"
    unfolding place_fine by (rule fine(5), rule fine(6))
  have b: "recBalance (run typed_fine) - recBalance (run placed_fine) \<noteq> placeRECs (run typed_fine)"
    "recBalance (run placed_fine)
       \<noteq> sub (recBalance (run typed_fine)) (placeRECs (run typed_fine))"
    unfolding place_fine by (rule fine(7), rule fine(8))
  from feasible_placed_fine place_fine(6,1,2) p o b show ?thesis by blast
qed

theorem placeSellOrder_reserves_witness:
  "user (run typed) = Some alice \<and> 0 < placeRECs (run typed)
   \<and> placeRECs (run typed) \<le> recBalance (run typed)
   \<and> 0 < plus_toFixed (placeRECs (run typed)) 6
   \<and> placeSellOrder 5 (run typed) = Inr (run listing)
   \<and> hd (orders (run listing)) = own_order
   \<and> o_rec own_order = placeRECs (run typed)
   \<and> recBalance (run typed) = double (1 / 10000) \<and> recBalance (run listing) = 0"
proof -
  have u: "user (run typed) = Some alice" by (simp add: run_typed run_minted)
  have p: "0 < placeRECs (run typed)" using tenth_of_milli(1) by (simp add: run_typed)
  have q: "placeRECs (run typed) \<le> recBalance (run typed)" by (simp add: run_typed run_minted)
  have z: "0 < plus_toFixed (placeRECs (run typed)) 6"
    using tenth_of_milli(1) by (simp add: run_typed tenth_of_milli(2))
  have r: "placeSellOrder 5 (run typed) = Inr (run listing)" by (simp add: place_typed run_listing)
  have h: "hd (orders (run listing)) = own_order" "o_rec own_order = placeRECs (run typed)"
    "recBalance (run typed) = double (1 / 10000)" "recBalance (run listing) = 0"
    by (simp_all add: run_listing run_typed run_minted own_order_sel)
  from placeSellOrder_reserves [OF u p q z, of 5] u p q z r h show ?thesis by blast
qed

section \<open>Minting\<close>

text \<open>
  C5. For \<open>kwh \<ge> 0\<close> the two deltas of \<open>mintTokensForKwh\<close> are
  \<open>+(kwh * 0.001).toFixed(6)\<close> and \<open>+(kwh * 0.8).toFixed(3)\<close>; the credit balance
  becomes \<open>+(recBalance + rec).toFixed(6)\<close> and the carbon total
  \<open>+(carbonKg + carbon).toFixed(3)\<close>, so each value is rounded as a delta and again as
  a total; nothing else changes.
\<close>

theorem mint_rounds_twice:
  assumes "0 \<le> kwh"
  shows "mint_rec kwh = plus_toFixed (mul kwh (double (1 / 1000))) 6
    \<and> mint_carbon kwh = plus_toFixed (mul kwh (double (8 / 10))) 3
    \<and> recBalance (mintTokensForKwh kwh s) = plus_toFixed (add (recBalance s) (mint_rec kwh)) 6
    \<and> carbonKg (mintTokensForKwh kwh s) = plus_toFixed (add (carbonKg s) (mint_carbon kwh)) 3
    \<and> mintTokensForKwh kwh s = s\<lparr>recBalance := recBalance (mintTokensForKwh kwh s),
          carbonKg := carbonKg (mintTokensForKwh kwh s)\<rparr>"
  by (simp add: mint_rec_def mint_carbon_def mintTokensForKwh_def Let_def)

theorem mint_rounds_twice_witness:
  "mint_rec (double (1 / 10)) = double (1 / 10000)
   \<and> mint_carbon (double (1 / 10)) = double (2 / 25)
   \<and> recBalance (mintTokensForKwh (double (1 / 10)) (run minted)) = double (1 / 5000)
   \<and> carbonKg (mintTokensForKwh (double (1 / 10)) (run minted)) = double (4 / 25)"
proof -
  have k: "0 \<le> double (1 / 10)" using tenth(1) by simp
  have h: "recBalance (mintTokensForKwh (double (1 / 10)) (run minted)) = double (1 / 5000)"
    "carbonKg (mintTokensForKwh (double (1 / 10)) (run minted)) = double (4 / 25)"
    by (simp_all add: mintTokensForKwh_def mint_tenth run_minted tenth_of_milli(6) two_25ths(4))
  from mint_rounds_twice [OF k, of "run minted"] mint_tenth h show ?thesis by blast
qed

section \<open>GreenScore\<close>

text \<open>
  C6. The score is \<open>Math.min(1000, Math.round(Math.log(1 + kwhTotal) * 200 +
  recBalance * 50))\<close> of the two state cells: the sum is rounded to the nearest integer,
  a half upwards, and then capped, so the score is an integer of at most 1000. Whenever
  the engine's \<open>Math.log\<close> is non-decreasing on the positive numbers, the score is
  non-decreasing in the energy total (from 0 on) and in the credit balance. With
  \<open>Math.log(1) = 0\<close> and no energy, the balances 0.008, 0.01 and 30 score 0, 1 and 1000.
\<close>

theorem score_monotone:
  assumes mlog: "\<forall>a b. 0 < a \<and> a \<le> b \<longrightarrow> mlog a \<le> mlog b"
    and "0 \<le> kwh" "kwh \<le> kwh'" "rec \<le> rec'"
  shows "score mlog kwh rec \<le> score mlog kwh' rec' \<and> score mlog kwh rec \<le> 1000
    \<and> greenScore mlog s = min 1000 (real_of_int
         \<lfloor>add (mul (mlog (add 1 (kwhTotal s))) 200) (mul (recBalance s) 50) + 1 / 2\<rfloor>)
    \<and> score mlog kwh rec \<in> \<int>
    \<and> (mlog 1 = 0 \<longrightarrow>
          score mlog 0 (double (1 / 125)) = 0 \<and> score mlog 0 (double (1 / 100)) = 1
          \<and> score mlog 0 30 = 1000)"
proof -
  have "double 1 \<le> add 1 kwh" using assms(2) unfolding add_def by (intro double_mono) simp
  then have pos: "0 < add 1 kwh" by (simp add: double_one)
  have "add 1 kwh \<le> add 1 kwh'" using assms(3) by (simp add: add_def double_mono)
  with mlog pos have "mlog (add 1 kwh) \<le> mlog (add 1 kwh')" by blast
  then have a: "mul (mlog (add 1 kwh)) 200 \<le> mul (mlog (add 1 kwh')) 200"
    by (simp add: mul_def double_mono)
  have b: "mul rec 50 \<le> mul rec' 50" using assms(4) by (simp add: mul_def double_mono)
  have "Math_round (add (mul (mlog (add 1 kwh)) 200) (mul rec 50))
      \<le> Math_round (add (mul (mlog (add 1 kwh')) 200) (mul rec' 50))"
    using a b by (intro Math_round_mono add_mono_js)
  then have mono: "score mlog kwh rec \<le> score mlog kwh' rec' \<and> score mlog kwh rec \<le> 1000"
    by (simp add: score_def min_le_iff_disj)
  have formula: "greenScore mlog s = min 1000 (real_of_int
      \<lfloor>add (mul (mlog (add 1 (kwhTotal s))) 200) (mul (recBalance s) 50) + 1 / 2\<rfloor>)"
    by (simp add: greenScore_def score_def Math_round_def)
  have whole: "score mlog kwh rec \<in> \<int>"
    by (simp add: score_def Math_round_def min_def)
  have v: "add 1 0 = 1" "mul 0 200 = 0"
    "Math_round (add 0 (mul (double (1 / 125)) 50)) = 0"
    "Math_round (add 0 (mul (double (1 / 100)) 50)) = 1"
    "Math_round (add 0 (mul 30 50)) = 1500"
    by (simp_all add: num_eval Math_round_def)
  have pinned: "score mlog 0 (double (1 / 125)) = 0 \<and> score mlog 0 (double (1 / 100)) = 1
      \<and> score mlog 0 30 = 1000" if "mlog 1 = 0"
    using that by (simp add: score_def v)
  from mono formula whole pinned show ?thesis by blast
qed

theorem score_monotone_witness:
  "score (\<lambda>x. double (ln x)) 0 (1 / 2) = 25
   \<and> score (\<lambda>x. double (ln x)) 0 (double (1 / 125)) = 0
   \<and> score (\<lambda>x. double (ln x)) 0 (double (1 / 100)) = 1
   \<and> score (\<lambda>x. double (ln x)) 0 30 = 1000
   \<and> score (\<lambda>x. double (ln x)) 0 (1 / 2) \<le> score (\<lambda>x. double (ln x)) 1 (1 / 2)
   \<and> score (\<lambda>x. double (ln x)) 0 (1 / 2) \<le> 1000"
proof -
  have "add 1 0 = 1" "mul 0 200 = 0" "add 0 (mul (1 / 2) 50) = 25"
    by (simp_all add: num_eval)
  then have v: "score (\<lambda>x. double (ln x)) 0 (1 / 2) = 25"
    by (simp add: score_def Math_round_def mul_def)
  have l: "double (ln 1) = 0" by simp
  from score_monotone [OF ideal_log_mono, of 0 1 "1 / 2" "1 / 2"] l
  have "score (\<lambda>x. double (ln x)) 0 (double (1 / 125)) = 0
    \<and> score (\<lambda>x. double (ln x)) 0 (double (1 / 100)) = 1
    \<and> score (\<lambda>x. double (ln x)) 0 30 = 1000
    \<and> score (\<lambda>x. double (ln x)) 0 (1 / 2) \<le> score (\<lambda>x. double (ln x)) 1 (1 / 2)
    \<and> score (\<lambda>x. double (ln x)) 0 (1 / 2) \<le> 1000"
    by simp
  with v show ?thesis by blast
qed

section \<open>Certificates\<close>

text \<open>
  C7. Without an account \<open>generateGIC\<close> stops with an alert and changes nothing. With
  one it prepends a certificate to the history whose \<open>totalRec\<close> is the credit balance
  printed with 6 decimals, whose \<open>totalCarbonKg\<close> is the carbon total printed with 3,
  with the issuer \<open>GreenPe:CERTv1\<close>, the account's id and identity hash, its GSTIN or
  \<open>NA\<close> for an empty one, and \<open>eu_cbam\<close> true. From the balances 1.234567 and 9.8765 it
  records 1.234567 and 9.877.
\<close>

theorem generateGIC_snapshot:
  "(user s = None \<longrightarrow>
      generateGIC now s = Inl ''Onboard to generate GIC'' \<and> step s (Generate now) = s)
   \<and> (\<forall>u. user s = Some u \<longrightarrow>
        generateGIC now s = Inr (s\<lparr>gics := new_gic u now s # gics s\<rparr>)
        \<and> totalRec (new_gic u now s) = plus_toFixed (recBalance s) 6
        \<and> totalCarbonKg (new_gic u now s) = plus_toFixed (carbonKg s) 3
        \<and> issuer (new_gic u now s) = ''GreenPe:CERTv1''
        \<and> g_energyId (generator (new_gic u now s)) = u_energyId u
        \<and> g_aadhaar_hash (generator (new_gic u now s)) = u_aadhaarHash u
        \<and> g_gstin (generator (new_gic u now s)) = (if u_gstin u = [] then ''NA'' else u_gstin u)
        \<and> eu_cbam (compliance (new_gic u now s))
        \<and> (recBalance s = double (1234567 / 1000000) \<and> carbonKg s = double (98765 / 10000) \<longrightarrow>
             totalRec (new_gic u now s) = double (1234567 / 1000000)
             \<and> totalCarbonKg (new_gic u now s) = double (9877 / 1000)))"
proof -
  have "plus_toFixed (double (1234567 / 1000000)) 6 = double (1234567 / 1000000)"
    by (simp add: num_eval)
  moreover have "plus_toFixed (double (98765 / 10000)) 3 = double (9877 / 1000)"
    by (simp add: num_eval)
  ultimately show ?thesis
    by (simp add: generateGIC_def new_gic_def)
qed

theorem generateGIC_snapshot_witness:
  "generateGIC 11 (init 0) = Inl ''Onboard to generate GIC''
   \<and> totalRec (new_gic alice 11 ((run minted)\<lparr>recBalance := double (1234567 / 1000000),
        carbonKg := double (98765 / 10000)\<rparr>)) = double (1234567 / 1000000)
   \<and> totalCarbonKg (new_gic alice 11 ((run minted)\<lparr>recBalance := double (1234567 / 1000000),
        carbonKg := double (98765 / 10000)\<rparr>)) = double (9877 / 1000)
   \<and> g_gstin (generator (new_gic alice 11 (run minted))) = ''NA''
   \<and> g_aadhaar_hash (generator (new_gic alice 11 (run minted))) = Some ''hash_1234''"
proof -
  have v: "plus_toFixed (double (1234567 / 1000000)) 6 = double (1234567 / 1000000)"
    "plus_toFixed (double (19753 / 2000)) 3 = double (9877 / 1000)"
    by (simp_all add: num_eval)
  have h: "generateGIC 11 (init 0) = Inl ''Onboard to generate GIC''"
    "totalRec (new_gic alice 11 ((run minted)\<lparr>recBalance := double (1234567 / 1000000),
        carbonKg := double (98765 / 10000)\<rparr>)) = double (1234567 / 1000000)"
    "totalCarbonKg (new_gic alice 11 ((run minted)\<lparr>recBalance := double (1234567 / 1000000),
        carbonKg := double (98765 / 10000)\<rparr>)) = double (9877 / 1000)"
    "g_gstin (generator (new_gic alice 11 (run minted))) = ''NA''"
    "g_aadhaar_hash (generator (new_gic alice 11 (run minted))) = Some ''hash_1234''"
    by (simp_all add: generateGIC_def init_def new_gic_def alice_def v)
  from generateGIC_snapshot [of "init 0" 11] h show ?thesis by blast
qed

section \<open>The meter totals\<close>

text \<open>
  C8, as amended. In every state that a run of the page reaches, no event that the page
  offers lowers the energy total or the carbon total, except Reset; Reset sets both, and
  the credit balance, to 0.
\<close>

theorem meter_totals_only_reset_lowers:
  assumes "feasible (init t) es" "enabled (foldl step (init t) es) e" "e \<noteq> Reset"
  shows "kwhTotal (foldl step (init t) es) \<le> kwhTotal (step (foldl step (init t) es) e)
    \<and> carbonKg (foldl step (init t) es) \<le> carbonKg (step (foldl step (init t) es) e)
    \<and> kwhTotal (step (foldl step (init t) es) Reset) = 0
    \<and> carbonKg (step (foldl step (init t) es) Reset) = 0
    \<and> recBalance (step (foldl step (init t) es) Reset) = 0"
proof -
  have "ledger_ok (foldl step (init t) es)"
    using ledger_ok_init assms(1) by (rule ledger_ok_run)
  then have "representable 3 (kwhTotal (foldl step (init t) es))"
    "representable 3 (carbonKg (foldl step (init t) es))"
    by (simp_all add: ledger_ok_def)
  from meter_step [OF assms(2) this] assms(3) show ?thesis by simp
qed

text \<open>After one tick the totals are 0.1 kWh and 0.08 kg; Reset puts both back to 0.\<close>

theorem reset_lowers_totals_counterexample:
  "feasible (init 0) (minted @ [Reset])
   \<and> kwhTotal (step (run minted) Reset) < kwhTotal (run minted)
   \<and> carbonKg (step (run minted) Reset) < carbonKg (run minted)"
  unfolding feasible_snoc using tenth(1) two_25ths(1) by (simp add: feasible_minted run_minted)

theorem meter_totals_only_reset_lowers_witness:
  "feasible (init 0) minted \<and> enabled (run minted) (Tick 0)
   \<and> kwhTotal (run minted) = double (1 / 10) \<and> kwhTotal (step (run minted) (Tick 0)) = double (1 / 5)
   \<and> carbonKg (run minted) = double (2 / 25) \<and> carbonKg (step (run minted) (Tick 0)) = double (4 / 25)
   \<and> kwhTotal (run minted) \<le> kwhTotal (step (run minted) (Tick 0))"
proof -
  have e: "enabled (foldl step (init 0) minted) (Tick 0)"
    unfolding run_def [symmetric] by (simp add: run_minted)
  have h: "kwhTotal (run minted) = double (1 / 10)"
    "kwhTotal (step (run minted) (Tick 0)) = double (1 / 5)"
    "carbonKg (run minted) = double (2 / 25)"
    "carbonKg (step (run minted) (Tick 0)) = double (4 / 25)"
    by (simp_all add: run_minted tick0 tenth two_25ths)
  have "Tick 0 \<noteq> Reset" by simp
  from meter_totals_only_reset_lowers [OF feasible_minted e this] feasible_minted e h
  show ?thesis unfolding run_def [symmetric] by blast
qed

section \<open>The credit balance stays non-negative\<close>

text \<open>
  C9. From a state whose credit balance is non-negative and representable with 6
  decimals, and whose listed orders and queued settlements carry non-negative amounts (as
  the seeded book does), every event that the page offers leaves the credit balance
  non-negative and representable, and the amounts non-negative; in particular the amount
  reserved by \<open>placeSellOrder\<close>, \<open>+amt.toFixed(6)\<close>, does not exceed a balance that
  covers \<open>amt\<close>. Hence the credit balance is non-negative and representable with 6
  decimals in every state that a run of the page reaches.
\<close>

theorem recBalance_stays_nonneg:
  assumes "0 \<le> recBalance s" "representable 6 (recBalance s)" "amounts_ok s" "enabled s e"
  shows "0 \<le> recBalance (step s e) \<and> representable 6 (recBalance (step s e))
    \<and> amounts_ok (step s e)
    \<and> (placeRECs s \<le> recBalance s \<longrightarrow> plus_toFixed (placeRECs s) 6 \<le> recBalance s)
    \<and> (feasible (init t) es \<longrightarrow>
          0 \<le> recBalance (foldl step (init t) es)
          \<and> representable 6 (recBalance (foldl step (init t) es))
          \<and> amounts_ok (foldl step (init t) es))"
proof -
  have debit: "placeRECs s \<le> recBalance s \<longrightarrow> plus_toFixed (placeRECs s) 6 \<le> recBalance s"
    using assms(2) by (auto intro: reserve_le)
  have "ledger_ok (foldl step (init t) es)" if "feasible (init t) es"
    using ledger_ok_init that by (rule ledger_ok_run)
  then have runs: "feasible (init t) es \<longrightarrow>
      0 \<le> recBalance (foldl step (init t) es)
      \<and> representable 6 (recBalance (foldl step (init t) es))
      \<and> amounts_ok (foldl step (init t) es)"
    by (simp add: ledger_ok_def)
  from credit_step [OF assms] debit runs show ?thesis by blast
qed

theorem recBalance_stays_nonneg_witness:
  "feasible (init 0) typed \<and> enabled (run typed) (Place 5) \<and> 0 \<le> recBalance (run typed)
   \<and> recBalance (run typed) = double (1 / 10000)
   \<and> plus_toFixed (placeRECs (run typed)) 6 = double (1 / 10000)
   \<and> recBalance (step (run typed) (Place 5)) = 0"
proof -
  have a: "0 \<le> recBalance (run typed)"
    using tenth_of_milli(1) by (simp add: run_typed run_minted)
  have r: "representable 6 (recBalance (run typed))"
    by (simp add: run_typed run_minted representable_def tenth_of_milli)
  have o: "amounts_ok (run typed)"
    by (simp add: amounts_ok_def run_typed run_minted init_def double_nonneg)
  have e: "enabled (run typed) (Place 5)" by simp
  have h: "recBalance (run typed) = double (1 / 10000)"
    "plus_toFixed (placeRECs (run typed)) 6 = double (1 / 10000)"
    "recBalance (step (run typed) (Place 5)) = 0"
    by (simp_all add: place_typed) (simp_all add: run_typed run_minted tenth_of_milli)
  from recBalance_stays_nonneg [OF a r o e, of 0 typed] feasible_typed e a h show ?thesis by blast
qed

section \<open>Buying without an account\<close>

text \<open>
  C10. With no account onboarded, \<open>buyOrder\<close> still runs: the trade is recorded with the
  buyer \<open>anonymous@greenpe\<close>, the order leaves the book, and the queued settlement holds
  no user; whenever it runs, whatever the state is by then, it changes neither the cash
  balance nor the credit balance.
\<close>

theorem anonymous_buy_credits_nothing:
  assumes "user s = None"
  shows "step s (Buy order now) = buyOrder order now s
    \<and> t_buyer (hd (tradeHistory (buyOrder order now s))) = ''anonymous@greenpe''
    \<and> t_orderId (hd (tradeHistory (buyOrder order now s))) = o_id order
    \<and> order \<notin> set (orders (buyOrder order now s))
    \<and> timeouts (buyOrder order now s) = timeouts s @ [new_closure order now s]
    \<and> c_user (new_closure order now s) = None
    \<and> (\<forall>s'. inrBalance (settle (new_closure order now s) s') = inrBalance s'
            \<and> recBalance (settle (new_closure order now s) s') = recBalance s')"
  using assms
  by (simp add: buyOrder_def new_trade_def new_closure_def order_buyer_def settle_def)

theorem anonymous_buy_credits_nothing_witness:
  "feasible (init 0) anonymous_buy
   \<and> user (init 0) = None
   \<and> t_buyer (hd (tradeHistory (run anonymous_buy))) = ''anonymous@greenpe''
   \<and> user (run anonymous_buy) = Some alice
   \<and> inrBalance (run anonymous_buy) = 0 \<and> recBalance (run anonymous_buy) = 0
   \<and> timeouts (run anonymous_buy) = []"
proof -
  have u: "user (init 0) = None" by (simp add: init_def)
  have h: "t_buyer (hd (tradeHistory (run anonymous_buy))) = ''anonymous@greenpe''"
    "user (run anonymous_buy) = Some alice"
    "inrBalance (run anonymous_buy) = 0" "recBalance (run anonymous_buy) = 0"
    "timeouts (run anonymous_buy) = []"
    by (simp_all add: run_anonymous_buy new_trade_def order_buyer_def) (simp_all add: init_def)
  from anonymous_buy_credits_nothing [OF u, of seed1 7] feasible_anonymous_buy u h
  show ?thesis by blast
qed

end
